theory Spec2Isabelle
  imports Complex_Main "HOL-Library.Sublist" "HOL-Library.Char_ord"
begin

section \<open>Python strings\<close>

text \<open>
  The service \<^verbatim>\<open>src/services/video_splitter.py\<close> works on Python \<^verbatim>\<open>str\<close> values.
  A \<^typ>\<open>char\<close> stands for one code point in the range U+0000 .. U+00FF, so a
  \<^typ>\<open>string\<close> is a Python string over the first 256 code points. The character
  classes below are those of CPython for that range: \<^verbatim>\<open>str.isspace\<close> (which is also
  what \<^verbatim>\<open>str.strip()\<close> removes and what \<^verbatim>\<open>\s\<close> matches in a \<^verbatim>\<open>str\<close> pattern),
  \<^verbatim>\<open>str.lower\<close>, and the word characters \<^verbatim>\<open>\w\<close> of a \<^verbatim>\<open>str\<close> pattern.
\<close>

definition isspace :: "char \<Rightarrow> bool" where
  "isspace c = (c \<in> set [CHR 0x09, CHR 0x0A, CHR 0x0B, CHR 0x0C, CHR 0x0D,
                          CHR 0x1C, CHR 0x1D, CHR 0x1E, CHR 0x1F, CHR 0x20,
                          CHR 0x85, CHR 0xA0])"

text \<open>\<^verbatim>\<open>s.strip()\<close>: leading and trailing white space removed.\<close>

definition strip :: "string \<Rightarrow> string" where
  "strip s = rev (dropWhile isspace (rev (dropWhile isspace s)))"

text \<open>
  \<^verbatim>\<open>s.split(sep)\<close> for a one-character separator. The result is never empty:
  splitting the empty string gives one empty field. The \<open>[]\<close> branch of the
  \<^theory_text>\<open>case\<close> is there for completeness of the pattern match only (see
  \<open>split_not_Nil\<close>).
\<close>

fun split :: "char \<Rightarrow> string \<Rightarrow> string list" where
  "split sep [] = [[]]"
| "split sep (c # cs) =
     (if c = sep then [] # split sep cs
      else (case split sep cs of [] \<Rightarrow> [[c]] | f # fs \<Rightarrow> (c # f) # fs))"

text \<open>\<^verbatim>\<open>sep.join(xs)\<close>.\<close>

fun join :: "string \<Rightarrow> string list \<Rightarrow> string" where
  "join sep [] = []"
| "join sep [x] = x"
| "join sep (x # y # ys) = x @ sep @ join sep (y # ys)"

text \<open>
  \<^verbatim>\<open>s.lower()\<close>. Below U+0100 the letters with a lower-case form are A-Z and
  U+00C0 .. U+00DE without the multiplication sign U+00D7; each maps to the code point
  32 above it, and no other code point changes.
\<close>

definition is_upper :: "char \<Rightarrow> bool" where
  "is_upper c = (let n = (of_char c :: nat) in
     (65 \<le> n \<and> n \<le> 90) \<or> (192 \<le> n \<and> n \<le> 222 \<and> n \<noteq> 215))"

definition lower_char :: "char \<Rightarrow> char" where
  "lower_char c = (if is_upper c then char_of ((of_char c :: nat) + 32) else c)"

definition lower :: "string \<Rightarrow> string" where
  "lower s = map lower_char s"

text \<open>\<^verbatim>\<open>sub in s\<close>: \<open>sub\<close> occurs in \<open>s\<close> as a contiguous substring.\<close>

fun contains :: "string \<Rightarrow> string \<Rightarrow> bool" where
  "contains sub [] = (sub = [])"
| "contains sub (c # cs) = (prefix sub (c # cs) \<or> contains sub cs)"

section \<open>Integers\<close>

text \<open>
  The built-in exceptions that the operations of the service can raise. \<open>TypeError\<close>
  is listed because \<^verbatim>\<open>_time_to_seconds\<close> names it in its \<^verbatim>\<open>except\<close> clause.
\<close>

datatype py_error = ValueError | TypeError | OverflowError | IndexError

text \<open>
  \<^verbatim>\<open>int(s)\<close> for a string \<open>s\<close>, base 10. CPython removes white space on both sides
  (the ASCII white space, and for a \<^verbatim>\<open>str\<close> also U+0085 and U+00A0, which it first
  maps to a blank; the separators U+001C .. U+001F are not removed), reads one optional
  sign, and then one or more groups of decimal digits separated by single underscores.
  Everything else raises \<^verbatim>\<open>ValueError\<close>. Python integers are unbounded, but the
  conversions between \<^verbatim>\<open>int\<close> and decimal text are not: \<^verbatim>\<open>int(s)\<close> raises
  \<^verbatim>\<open>ValueError\<close> when \<open>s\<close> holds more digits than \<^verbatim>\<open>sys.get_int_max_str_digits()\<close>,
  and \<^verbatim>\<open>str(n)\<close> does when \<open>n\<close> has more decimal digits than that. The service never
  changes the limit, so it is the default of the interpreter (CPython 3.11), 4300. The digits are
  counted after the white space and the sign; leading zeros count and underscores do not.
\<close>

definition int_max_str_digits :: int where
  "int_max_str_digits = 4300"

definition int_space :: "char \<Rightarrow> bool" where
  "int_space c = (c \<in> set [CHR 0x09, CHR 0x0A, CHR 0x0B, CHR 0x0C, CHR 0x0D, CHR 0x20,
                            CHR 0x85, CHR 0xA0])"

definition is_digit :: "char \<Rightarrow> bool" where
  "is_digit c = (CHR ''0'' \<le> c \<and> c \<le> CHR ''9'')"

definition digit_val :: "char \<Rightarrow> int" where
  "digit_val c = of_char c - 48"

text \<open>
  \<open>digits_tail acc cs\<close> reads the rest of the digits after at least one digit, whose
  value so far is \<open>acc\<close>: a digit, or an underscore followed by a digit.
\<close>

fun digits_tail :: "int \<Rightarrow> string \<Rightarrow> py_error + int" where
  "digits_tail acc [] = Inr acc"
| "digits_tail acc [c] =
     (if is_digit c then Inr (acc * 10 + digit_val c) else Inl ValueError)"
| "digits_tail acc (c # d # cs) =
     (if is_digit c then digits_tail (acc * 10 + digit_val c) (d # cs)
      else if c = CHR ''_'' \<and> is_digit d then digits_tail (acc * 10 + digit_val d) cs
      else Inl ValueError)"

text \<open>
  The text after the sign. A text that is not made of digit groups is rejected whatever
  its length, so the digits can be counted in the whole of it.
\<close>

definition unsigned_int :: "string \<Rightarrow> py_error + int" where
  "unsigned_int s =
     (case s of
        [] \<Rightarrow> Inl ValueError
      | c # cs \<Rightarrow>
          if int_max_str_digits < int (length (filter is_digit s)) then Inl ValueError
          else if is_digit c then digits_tail (digit_val c) cs
          else Inl ValueError)"

definition py_int :: "string \<Rightarrow> py_error + int" where
  "py_int s =
     (case rev (dropWhile int_space (rev (dropWhile int_space s))) of
        [] \<Rightarrow> Inl ValueError
      | c # cs \<Rightarrow>
          if c = CHR ''-'' then
            (case unsigned_int cs of Inl e \<Rightarrow> Inl e | Inr n \<Rightarrow> Inr (- n))
          else if c = CHR ''+'' then unsigned_int cs
          else unsigned_int (c # cs))"

section \<open>\<^verbatim>\<open>VideoSplitter._time_to_seconds\<close>\<close>

text \<open>
  The function returns a Python \<^verbatim>\<open>int\<close> from the \<^verbatim>\<open>try\<close> body and the float literal
  \<^verbatim>\<open>0.0\<close> from the \<^verbatim>\<open>except\<close> branch; these are the two kinds of value of
  \<open>seconds\<close>.
\<close>

datatype seconds = IntSeconds int | ZeroFloat

text \<open>
  The body of the \<^verbatim>\<open>try\<close>. \<^verbatim>\<open>minutes, seconds = map(int, parts)\<close> converts the fields
  from left to right; a field that \<^verbatim>\<open>int\<close> rejects raises \<^verbatim>\<open>ValueError\<close>, and so does
  the explicit \<^verbatim>\<open>raise\<close> for any other number of fields.
\<close>

definition time_to_seconds_try :: "string \<Rightarrow> py_error + int" where
  "time_to_seconds_try time_str =
     (case split CHR '':'' (strip time_str) of
        [m, s] \<Rightarrow>
          (case py_int m of
             Inl e \<Rightarrow> Inl e
           | Inr minutes \<Rightarrow>
               (case py_int s of
                  Inl e \<Rightarrow> Inl e
                | Inr secs \<Rightarrow> Inr (minutes * 60 + secs)))
      | [h, m, s] \<Rightarrow>
          (case py_int h of
             Inl e \<Rightarrow> Inl e
           | Inr hours \<Rightarrow>
               (case py_int m of
                  Inl e \<Rightarrow> Inl e
                | Inr minutes \<Rightarrow>
                    (case py_int s of
                       Inl e \<Rightarrow> Inl e
                     | Inr secs \<Rightarrow> Inr (hours * 3600 + minutes * 60 + secs))))
      | _ \<Rightarrow> Inl ValueError)"

text \<open>
  \<^verbatim>\<open>except (ValueError, TypeError)\<close> turns these two exceptions into \<^verbatim>\<open>0.0\<close>; any
  other exception would leave the function.
\<close>

definition time_to_seconds :: "string \<Rightarrow> py_error + seconds" where
  "time_to_seconds time_str =
     (case time_to_seconds_try time_str of
        Inr n \<Rightarrow> Inr (IntSeconds n)
      | Inl e \<Rightarrow> if e = ValueError \<or> e = TypeError then Inr ZeroFloat else Inl e)"

section \<open>\<^verbatim>\<open>VideoSplitter._parse_csv_response\<close>\<close>

record segment =
  event_id :: string
  start_time :: string
  end_time :: string

text \<open>
  The search \<^verbatim>\<open>re.search(r'```csv\s*\n(.*?)\n```', response, re.DOTALL)\<close>, as the
  backtracking matcher runs it. \<open>until_fence\<close> is the lazy group \<^verbatim>\<open>(.*?)\<close> followed by
  the closing \<^verbatim>\<open>\n```\<close>: the group grows one character at a time (any character, since
  \<^verbatim>\<open>DOTALL\<close> is set) until the closing fence matches. \<open>after_tag\<close> is the greedy \<^verbatim>\<open>\s*\<close>
  followed by \<^verbatim>\<open>\n\<close> and the rest: it first tries to take one more white-space character
  and only gives it back when the rest of the pattern fails. \<open>csv_search\<close> tries the
  start positions from left to right and returns group 1 of the first match.
\<close>

definition fence_close :: string where
  "fence_close = CHR 0x0A # ''```''"

fun until_fence :: "string \<Rightarrow> string option" where
  "until_fence [] = None"
| "until_fence (c # cs) =
     (if prefix fence_close (c # cs) then Some []
      else map_option ((#) c) (until_fence cs))"

fun after_tag :: "string \<Rightarrow> string option" where
  "after_tag [] = None"
| "after_tag (c # cs) =
     (case (if isspace c then after_tag cs else None) of
        Some g \<Rightarrow> Some g
      | None \<Rightarrow> if c = CHR 0x0A then until_fence cs else None)"

fun csv_search :: "string \<Rightarrow> string option" where
  "csv_search [] = None"
| "csv_search (c # cs) =
     (case (if prefix ''```csv'' (c # cs) then after_tag (drop 6 (c # cs)) else None) of
        Some g \<Rightarrow> Some g
      | None \<Rightarrow> csv_search cs)"

definition header_tokens :: string where
  "header_tokens = ''event_id,start_time,end_time''"

text \<open>
  The \<^verbatim>\<open>for line in lines\<close> loop of the fallback, with its two variables \<^verbatim>\<open>in_csv\<close> and
  \<^verbatim>\<open>csv_lines\<close>. The fourth branch is the \<^verbatim>\<open>break\<close>; a line that takes no branch is
  passed over.
\<close>

fun scan_lines :: "bool \<Rightarrow> string list \<Rightarrow> string list \<Rightarrow> string list" where
  "scan_lines in_csv csv_lines [] = csv_lines"
| "scan_lines in_csv csv_lines (l # ls) =
     (let line = strip l in
      if contains header_tokens (lower line) then scan_lines True (csv_lines @ [line]) ls
      else if in_csv \<and> CHR '','' \<in> set line \<and> length (split CHR '','' line) \<ge> 3
        then scan_lines in_csv (csv_lines @ [line]) ls
      else if in_csv \<and> line = [] then scan_lines in_csv csv_lines ls
      else if in_csv then csv_lines
      else scan_lines in_csv csv_lines ls)"

definition csv_content :: "string \<Rightarrow> string" where
  "csv_content response =
     (case csv_search response of
        Some group1 \<Rightarrow> strip group1
      | None \<Rightarrow> join [CHR 0x0A] (scan_lines False [] (split (CHR 0x0A) (strip response))))"

text \<open>\<^verbatim>\<open>xs[i]\<close> for \<open>i \<ge> 0\<close>: an index beyond the end raises \<^verbatim>\<open>IndexError\<close>.\<close>

definition index :: "'a list \<Rightarrow> nat \<Rightarrow> py_error + 'a" where
  "index xs i = (if i < length xs then Inr (xs ! i) else Inl IndexError)"

text \<open>
  The loop \<^verbatim>\<open>for line in lines[1:]\<close> with the list \<^verbatim>\<open>segments\<close> it appends to. An
  exception leaves the loop together with the list as it is at that moment, which is
  what the handler of the function returns.
\<close>

fun parse_rows :: "segment list \<Rightarrow> string list \<Rightarrow> (py_error \<times> segment list) + segment list" where
  "parse_rows segments [] = Inr segments"
| "parse_rows segments (line # ls) =
     (let parts = split CHR '','' (strip line) in
      if length parts \<ge> 3 then
        (case index parts 0 of
           Inl e \<Rightarrow> Inl (e, segments)
         | Inr p0 \<Rightarrow>
             (case index parts 1 of
                Inl e \<Rightarrow> Inl (e, segments)
              | Inr p1 \<Rightarrow>
                  (case index parts 2 of
                     Inl e \<Rightarrow> Inl (e, segments)
                   | Inr p2 \<Rightarrow>
                       (let eid = strip p0; st = strip p1; et = strip p2 in
                        if eid \<noteq> [] \<and> st \<noteq> [] \<and> et \<noteq> [] then
                          parse_rows
                            (segments @ [\<lparr>event_id = eid, start_time = st, end_time = et\<rparr>]) ls
                        else parse_rows segments ls))))
      else parse_rows segments ls)"

text \<open>
  The body of the \<^verbatim>\<open>try\<close>. The search, \<^verbatim>\<open>strip\<close>, \<^verbatim>\<open>split\<close>, \<^verbatim>\<open>join\<close>, \<^verbatim>\<open>lower\<close> and
  the slice \<^verbatim>\<open>lines[1:]\<close> are defined on every string and list; \<^verbatim>\<open>group(1)\<close> is called
  on a match only. The two early \<^verbatim>\<open>return segments\<close> return the list while it is
  still empty.
\<close>

definition parse_csv_response_try :: "string \<Rightarrow> (py_error \<times> segment list) + segment list" where
  "parse_csv_response_try response =
     (let content = csv_content response in
      if content = [] then Inr []
      else
        (let lines = split (CHR 0x0A) (strip content) in
         if length lines < 2 then Inr [] else parse_rows [] (drop 1 lines)))"

text \<open>\<^verbatim>\<open>except Exception as e: ... return segments\<close>.\<close>

definition parse_csv_response :: "string \<Rightarrow> segment list" where
  "parse_csv_response response =
     (case parse_csv_response_try response of
        Inr segments \<Rightarrow> segments
      | Inl (e, segments) \<Rightarrow> segments)"

section \<open>Durations\<close>

text \<open>
  \<^verbatim>\<open>duration = end_seconds - start_seconds\<close>. Between two integers the subtraction is
  exact. When one operand is \<^verbatim>\<open>0.0\<close>, Python converts the other one to a float first:
  \<^verbatim>\<open>float(n)\<close> is \<open>n\<close> rounded to 53 significant bits, ties to even, and raises
  \<^verbatim>\<open>OverflowError\<close> when the rounded value does not fit a double (it reaches \<open>2 ^ 1024\<close>).
  Subtracting \<^verbatim>\<open>0.0\<close>, or subtracting from \<^verbatim>\<open>0.0\<close>, is then exact. A float is
  represented by the real number it holds.
\<close>

datatype pynum = PyInt int | PyFloat real

fun bit_length :: "nat \<Rightarrow> nat" where
  "bit_length n = (if n = 0 then 0 else Suc (bit_length (n div 2)))"

definition round_to_53_bits :: "nat \<Rightarrow> nat" where
  "round_to_53_bits m =
     (if bit_length m \<le> 53 then m
      else
        (let e = bit_length m - 53;
             q = m div 2 ^ e;
             r = m mod 2 ^ e;
             half = 2 ^ (e - 1)
         in (if r > half \<or> (r = half \<and> odd q) then q + 1 else q) * 2 ^ e))"

definition int_to_float :: "int \<Rightarrow> py_error + real" where
  "int_to_float n =
     (let v = round_to_53_bits (nat \<bar>n\<bar>) in
      if v \<ge> 2 ^ 1024 then Inl OverflowError else Inr (of_int (sgn n * int v)))"

fun sub_seconds :: "seconds \<Rightarrow> seconds \<Rightarrow> py_error + pynum" where
  "sub_seconds (IntSeconds a) (IntSeconds b) = Inr (PyInt (a - b))"
| "sub_seconds (IntSeconds a) ZeroFloat =
     (case int_to_float a of Inl e \<Rightarrow> Inl e | Inr x \<Rightarrow> Inr (PyFloat (x - 0)))"
| "sub_seconds ZeroFloat (IntSeconds b) =
     (case int_to_float b of Inl e \<Rightarrow> Inl e | Inr y \<Rightarrow> Inr (PyFloat (0 - y)))"
| "sub_seconds ZeroFloat ZeroFloat = Inr (PyFloat 0)"

text \<open>The test \<^verbatim>\<open>duration <= 0\<close>.\<close>

fun le_zero :: "pynum \<Rightarrow> bool" where
  "le_zero (PyInt n) = (n \<le> 0)"
| "le_zero (PyFloat x) = (x \<le> 0)"

section \<open>Numbers as text\<close>

text \<open>
  \<^verbatim>\<open>str(x)\<close> for the two numbers that the loop puts in the command. For an \<^verbatim>\<open>int\<close> it
  raises \<^verbatim>\<open>ValueError\<close> when the number has more decimal digits than the limit (the
  sign is not counted); for a float it always returns. The text itself is not part of
  the model: a conversion that returns is represented by the number it prints.
\<close>

function decimal_length :: "int \<Rightarrow> nat" where
  "decimal_length n = (if \<bar>n\<bar> < 10 then 1 else Suc (decimal_length (\<bar>n\<bar> div 10)))"
  by auto

termination
  by (relation "measure (\<lambda>n. nat \<bar>n\<bar>)") auto

declare decimal_length.simps [simp del]

definition str_raises :: "int \<Rightarrow> bool" where
  "str_raises n = (int_max_str_digits < int (decimal_length n))"

fun str_seconds :: "seconds \<Rightarrow> py_error + seconds" where
  "str_seconds (IntSeconds n) = (if str_raises n then Inl ValueError else Inr (IntSeconds n))"
| "str_seconds ZeroFloat = Inr ZeroFloat"

fun str_duration :: "pynum \<Rightarrow> py_error + pynum" where
  "str_duration (PyInt n) = (if str_raises n then Inl ValueError else Inr (PyInt n))"
| "str_duration (PyFloat x) = Inr (PyFloat x)"

section \<open>File names\<close>

text \<open>
  \<^verbatim>\<open>re.sub(r'[^\w\-_.]', '_', event_id)\<close>: every character outside the class is replaced
  by an underscore, the others are kept. Below U+0100 the word characters \<^verbatim>\<open>\w\<close> of a
  \<^verbatim>\<open>str\<close> pattern are the ASCII letters and digits, the underscore, and the
  alphanumeric code points of the upper half.
\<close>

definition is_word_char :: "char \<Rightarrow> bool" where
  "is_word_char c = (let n = (of_char c :: nat) in
     (48 \<le> n \<and> n \<le> 57) \<or> (65 \<le> n \<and> n \<le> 90) \<or> n = 95 \<or> (97 \<le> n \<and> n \<le> 122)
     \<or> n = 170 \<or> n = 178 \<or> n = 179 \<or> n = 181 \<or> n = 185 \<or> n = 186
     \<or> (188 \<le> n \<and> n \<le> 190) \<or> (192 \<le> n \<and> n \<le> 214) \<or> (216 \<le> n \<and> n \<le> 246)
     \<or> (248 \<le> n \<and> n \<le> 255))"

definition in_safe_class :: "char \<Rightarrow> bool" where
  "in_safe_class c = (is_word_char c \<or> c = CHR ''-'' \<or> c = CHR ''_'' \<or> c = CHR ''.'')"

definition safe_event_id :: "string \<Rightarrow> string" where
  "safe_event_id eid = map (\<lambda>c. if in_safe_class c then c else CHR ''_'') eid"

definition output_filename :: "string \<Rightarrow> string \<Rightarrow> string" where
  "output_filename eid today = safe_event_id eid @ ''_'' @ today @ ''.mp4''"

section \<open>\<^verbatim>\<open>VideoSplitter._split_video_with_ffmpeg\<close>\<close>

text \<open>
  What the service takes from \<^verbatim>\<open>pathlib\<close> and from its configuration:
  \<open>path_str p\<close> is \<^verbatim>\<open>str(Path(p))\<close>, \<open>path_join d name\<close> is \<^verbatim>\<open>str(Path(d) / name)\<close>,
  \<open>default_dir\<close> is \<^verbatim>\<open>self.config.output.default_dir\<close> and \<open>ffmpeg_path\<close> is
  \<^verbatim>\<open>str(self.ffmpeg_path)\<close>.
\<close>

record config =
  path_str :: "string \<Rightarrow> string"
  path_join :: "string \<Rightarrow> string \<Rightarrow> string"
  default_dir :: string
  ffmpeg_path :: string

text \<open>
  The argument list \<^verbatim>\<open>cmd\<close>. Its fixed flags are left out; the fields are the five
  arguments that vary: the program, the input after \<^verbatim>\<open>-i\<close>, the start after \<^verbatim>\<open>-ss\<close>,
  the duration after \<^verbatim>\<open>-t\<close> (each the number that \<^verbatim>\<open>str()\<close> prints), and the output
  path.
\<close>

record ffmpeg_cmd =
  cmd_program :: string
  cmd_input :: string
  cmd_ss :: seconds
  cmd_t :: pynum
  cmd_output :: string

text \<open>
  The exceptions of the service itself. \<open>VideoSplitterError\<close> and \<open>GeminiAPIError\<close> are
  the two exception classes of the repository, \<open>OtherError\<close> is any other exception that
  a collaborator raises. The argument is the message, \<^verbatim>\<open>str(e)\<close>. A message is kept
  structured: the service builds each one from a fixed phrase and, where it wraps an
  exception, the message of that exception.
\<close>

datatype message =
    Text string
  | InputNotFound string
  | NoEventDetected
  | PromptNotFound
  | AnalysisFailed message
  | AnalysisError message
  | SplitFailed message

datatype error =
    VideoSplitterError message
  | GeminiAPIError message
  | OtherError message

fun str_of :: "error \<Rightarrow> message" where
  "str_of (VideoSplitterError m) = m"
| "str_of (GeminiAPIError m) = m"
| "str_of (OtherError m) = m"

text \<open>
  One iteration of the loop up to the list \<^verbatim>\<open>cmd\<close>: the two conversions, the
  subtraction, the test \<^verbatim>\<open>duration <= 0\<close> with its \<^verbatim>\<open>continue\<close> (the result \<open>None\<close>),
  the file name and the command, whose elements are evaluated from left to right:
  \<^verbatim>\<open>str(start_seconds)\<close>, then \<^verbatim>\<open>str(duration)\<close>. An exception raised on the way (\<open>Inl\<close>)
  is caught by the \<^verbatim>\<open>except Exception\<close> of the iteration.
\<close>

definition plan_cut ::
  "config \<Rightarrow> string \<Rightarrow> string \<Rightarrow> string \<Rightarrow> segment \<Rightarrow> py_error + ffmpeg_cmd option" where
  "plan_cut cfg input_path output_dir today seg =
     (case time_to_seconds (start_time seg) of
        Inl e \<Rightarrow> Inl e
      | Inr start_seconds \<Rightarrow>
          (case time_to_seconds (end_time seg) of
             Inl e \<Rightarrow> Inl e
           | Inr end_seconds \<Rightarrow>
               (case sub_seconds end_seconds start_seconds of
                  Inl e \<Rightarrow> Inl e
                | Inr duration \<Rightarrow>
                    if le_zero duration then Inr None
                    else
                      (case str_seconds start_seconds of
                         Inl e \<Rightarrow> Inl e
                       | Inr ss \<Rightarrow>
                           (case str_duration duration of
                              Inl e \<Rightarrow> Inl e
                            | Inr t \<Rightarrow>
                                Inr (Some
                                  \<lparr>cmd_program = ffmpeg_path cfg,
                                   cmd_input = path_str cfg input_path,
                                   cmd_ss = ss,
                                   cmd_t = t,
                                   cmd_output =
                                     path_join cfg output_dir
                                       (output_filename (event_id seg) today)\<rparr>))))))"

text \<open>
  The loop \<^verbatim>\<open>for i, segment in enumerate(segments)\<close>, with the list \<^verbatim>\<open>split_files\<close> and
  the state \<open>w\<close> of the world outside the process. \<open>run w cmd\<close> is
  \<^verbatim>\<open>subprocess.run(cmd, ...)\<close>: it returns the return code of the process, or raises,
  and leaves the world in a new state.
\<close>

fun cut_loop ::
  "config \<Rightarrow> ('w \<Rightarrow> ffmpeg_cmd \<Rightarrow> (error + int) \<times> 'w) \<Rightarrow> string \<Rightarrow> string \<Rightarrow> string \<Rightarrow>
   segment list \<Rightarrow> string list \<Rightarrow> 'w \<Rightarrow> string list \<times> 'w" where
  "cut_loop cfg run input_path output_dir today [] split_files w = (split_files, w)"
| "cut_loop cfg run input_path output_dir today (seg # segs) split_files w =
     (case plan_cut cfg input_path output_dir today seg of
        Inl e \<Rightarrow> cut_loop cfg run input_path output_dir today segs split_files w
      | Inr None \<Rightarrow> cut_loop cfg run input_path output_dir today segs split_files w
      | Inr (Some cmd) \<Rightarrow>
          (case run w cmd of
             (Inl e, w') \<Rightarrow> cut_loop cfg run input_path output_dir today segs split_files w'
           | (Inr returncode, w') \<Rightarrow>
               if returncode = 0
               then cut_loop cfg run input_path output_dir today segs
                      (split_files @ [cmd_output cmd]) w'
               else cut_loop cfg run input_path output_dir today segs split_files w'))"

text \<open>
  The collaborators of the service, each a function of the state of the world:
  \<open>exists\<close> is \<^verbatim>\<open>Path.exists\<close>, \<open>mkdir\<close> is \<^verbatim>\<open>Path.mkdir(parents=True, exist_ok=True)\<close>,
  \<open>get_prompt\<close> is \<^verbatim>\<open>prompt_manager.get_prompt("video_segmentation")\<close>,
  \<open>analyze_with_custom_prompt\<close> is the method \<^verbatim>\<open>_analyze_video_with_custom_prompt\<close>
  (upload, remote call and clean-up; it returns the text of the response or raises),
  \<open>now_date\<close> and \<open>now_timestamp\<close> are \<^verbatim>\<open>datetime.now()\<close> formatted with \<^verbatim>\<open>%Y%m%d\<close> and
  \<^verbatim>\<open>%Y%m%d_%H%M%S\<close>, \<open>run_ffmpeg\<close> is \<^verbatim>\<open>subprocess.run\<close>, and \<open>write_csv\<close> is the
  \<^verbatim>\<open>with open(...)\<close> block that writes the header and the rows.
\<close>

record 'w collaborators =
  exists :: "'w \<Rightarrow> string \<Rightarrow> error + bool"
  mkdir :: "'w \<Rightarrow> string \<Rightarrow> error option \<times> 'w"
  get_prompt :: "'w \<Rightarrow> (error + string option) \<times> 'w"
  analyze_with_custom_prompt :: "'w \<Rightarrow> string \<Rightarrow> string \<Rightarrow> (error + string) \<times> 'w"
  now_date :: "'w \<Rightarrow> string"
  run_ffmpeg :: "'w \<Rightarrow> ffmpeg_cmd \<Rightarrow> (error + int) \<times> 'w"
  now_timestamp :: "'w \<Rightarrow> string"
  write_csv :: "'w \<Rightarrow> string \<Rightarrow> segment list \<Rightarrow> error option \<times> 'w"

text \<open>The date is read once, before the loop.\<close>

definition split_video_with_ffmpeg ::
  "config \<Rightarrow> 'w collaborators \<Rightarrow> string \<Rightarrow> segment list \<Rightarrow> string \<Rightarrow> 'w \<Rightarrow> string list \<times> 'w" where
  "split_video_with_ffmpeg cfg col input_path segments output_dir w =
     cut_loop cfg (run_ffmpeg col) input_path output_dir (now_date col w) segments [] w"

section \<open>\<^verbatim>\<open>VideoSplitter._save_segments_to_csv\<close>\<close>

text \<open>Any exception of the body is caught and the empty string is returned.\<close>

definition save_segments_to_csv ::
  "config \<Rightarrow> 'w collaborators \<Rightarrow> segment list \<Rightarrow> string \<Rightarrow> 'w \<Rightarrow> string \<times> 'w" where
  "save_segments_to_csv cfg col segments output_dir w =
     (let csv_path = path_join cfg output_dir (''video_segments_'' @ now_timestamp col w @ ''.csv'')
      in case write_csv col w csv_path segments of
           (Some e, w') \<Rightarrow> ([], w')
         | (None, w') \<Rightarrow> (csv_path, w'))"

section \<open>\<^verbatim>\<open>VideoSplitter._analyze_video\<close>\<close>

text \<open>
  The two \<^verbatim>\<open>except\<close> clauses: a \<open>GeminiAPIError\<close> and any other exception are both
  raised again as a \<open>VideoSplitterError\<close>, with different phrases. The
  \<open>VideoSplitterError\<close> for a missing prompt is raised inside the \<^verbatim>\<open>try\<close> and so takes
  the second clause.
\<close>

fun analysis_error :: "error \<Rightarrow> error" where
  "analysis_error (GeminiAPIError m) = VideoSplitterError (AnalysisFailed m)"
| "analysis_error e = VideoSplitterError (AnalysisError (str_of e))"

definition analyze_video ::
  "'w collaborators \<Rightarrow> string \<Rightarrow> 'w \<Rightarrow> (error + segment list) \<times> 'w" where
  "analyze_video col video_path w =
     (case get_prompt col w of
        (Inl e, w1) \<Rightarrow> (Inl (analysis_error e), w1)
      | (Inr prompt, w1) \<Rightarrow>
          (case prompt of
             None \<Rightarrow> (Inl (analysis_error (VideoSplitterError PromptNotFound)), w1)
           | Some p \<Rightarrow>
               if p = [] then (Inl (analysis_error (VideoSplitterError PromptNotFound)), w1)
               else
                 (case analyze_with_custom_prompt col w1 video_path p of
                    (Inl e, w2) \<Rightarrow> (Inl (analysis_error e), w2)
                  | (Inr response, w2) \<Rightarrow> (Inr (parse_csv_response response), w2))))"

section \<open>\<^verbatim>\<open>VideoSplitter.split_video\<close>\<close>

record result =
  input_file :: string
  output_directory :: string
  segments_count :: nat
  split_files :: "string list"
  csv_file :: string
  segments :: "segment list"

text \<open>The body of the \<^verbatim>\<open>try\<close>, in the order of the source.\<close>

definition split_video_try ::
  "config \<Rightarrow> 'w collaborators \<Rightarrow> string \<Rightarrow> string option \<Rightarrow> 'w \<Rightarrow> (error + result) \<times> 'w" where
  "split_video_try cfg col input_video_path output_dir w =
     (case exists col w input_video_path of
        Inl e \<Rightarrow> (Inl e, w)
      | Inr found \<Rightarrow>
          if \<not> found then (Inl (VideoSplitterError (InputNotFound input_video_path)), w)
          else
            (let out = (case output_dir of None \<Rightarrow> default_dir cfg | Some d \<Rightarrow> d) in
             case mkdir col w out of
               (Some e, w1) \<Rightarrow> (Inl e, w1)
             | (None, w1) \<Rightarrow>
                 (case analyze_video col (path_str cfg input_video_path) w1 of
                    (Inl e, w2) \<Rightarrow> (Inl e, w2)
                  | (Inr event_segments, w2) \<Rightarrow>
                      if event_segments = [] then (Inl (VideoSplitterError NoEventDetected), w2)
                      else
                        (case split_video_with_ffmpeg cfg col (path_str cfg input_video_path)
                                event_segments (path_str cfg out) w2 of
                           (files, w3) \<Rightarrow>
                             (case save_segments_to_csv cfg col event_segments
                                     (path_str cfg out) w3 of
                                (csv, w4) \<Rightarrow>
                                  (Inr \<lparr>input_file = path_str cfg input_video_path,
                                        output_directory = path_str cfg out,
                                        segments_count = length event_segments,
                                        split_files = files,
                                        csv_file = csv,
                                        segments = event_segments\<rparr>, w4))))))"

text \<open>
  \<^verbatim>\<open>except Exception as e\<close>: every exception of the body, the service's own included,
  leaves the method as a \<open>VideoSplitterError\<close> that wraps its message.
\<close>

definition split_video ::
  "config \<Rightarrow> 'w collaborators \<Rightarrow> string \<Rightarrow> string option \<Rightarrow> 'w \<Rightarrow> (error + result) \<times> 'w" where
  "split_video cfg col input_video_path output_dir w =
     (case split_video_try cfg col input_video_path output_dir w of
        (Inl e, w') \<Rightarrow> (Inl (VideoSplitterError (SplitFailed (str_of e))), w')
      | (Inr r, w') \<Rightarrow> (Inr r, w'))"

section \<open>Notions used in the statements\<close>

text \<open>The value of a string of decimal digits.\<close>

definition decimal :: "string \<Rightarrow> int" where
  "decimal ds = foldl (\<lambda>a c. a * 10 + digit_val c) 0 ds"

text \<open>
  The fallback scan in the words of its description. A line has the header when its
  lower-case form contains the header tokens; it is table-shaped when it contains a comma
  and splits into at least three fields. The capture starts at the first line with the
  header and takes that line; of the lines after it, it takes the table-shaped ones,
  passes over the empty ones, and ends before the first line that is neither.
\<close>

definition has_header :: "string \<Rightarrow> bool" where
  "has_header line = contains header_tokens (lower line)"

definition table_shaped :: "string \<Rightarrow> bool" where
  "table_shaped line = (CHR '','' \<in> set line \<and> length (split CHR '','' line) \<ge> 3)"

definition fallback_capture :: "string list \<Rightarrow> string list" where
  "fallback_capture ls =
     (case dropWhile (\<lambda>l. \<not> has_header l) ls of
        [] \<Rightarrow> []
      | h # rest \<Rightarrow> h # filter (\<lambda>l. l \<noteq> []) (takeWhile (\<lambda>l. table_shaped l \<or> l = []) rest))"

text \<open>
  A row of the table, in the words of its description: it is accepted when it splits
  into at least three fields of which the first three are not empty after trimming, and
  its record holds these three trimmed fields.
\<close>

definition row_accepted :: "string \<Rightarrow> bool" where
  "row_accepted line =
     (let parts = split CHR '','' (strip line) in
      length parts \<ge> 3 \<and> strip (parts ! 0) \<noteq> [] \<and> strip (parts ! 1) \<noteq> []
      \<and> strip (parts ! 2) \<noteq> [])"

definition row_record :: "string \<Rightarrow> segment" where
  "row_record line =
     (let parts = split CHR '','' (strip line) in
      \<lparr>event_id = strip (parts ! 0), start_time = strip (parts ! 1),
       end_time = strip (parts ! 2)\<rparr>)"

text \<open>
  \<^verbatim>\<open>s.lstrip()\<close> and \<^verbatim>\<open>s.rstrip()\<close>, the two halves of \<^verbatim>\<open>strip\<close>, and a response that
  holds a fenced table: any text, the opening fence with its newline, the header line and
  the rows joined by newlines, the closing fence on a line of its own, and any text.
\<close>

definition lstrip :: "string \<Rightarrow> string" where
  "lstrip s = dropWhile isspace s"

definition rstrip :: "string \<Rightarrow> string" where
  "rstrip s = rev (dropWhile isspace (rev s))"

definition fenced_response :: "string \<Rightarrow> string \<Rightarrow> string list \<Rightarrow> string \<Rightarrow> string" where
  "fenced_response before hdr rows after =
     before @ ''```csv'' @ [CHR 0x0A] @ join [CHR 0x0A] (hdr # rows) @ fence_close @ after"

text \<open>
  The cut loop in the words of its description. The duration of a segment is the
  difference \<^verbatim>\<open>end_seconds - start_seconds\<close> as Python computes it; the computation
  raises when one side is the fallback \<^verbatim>\<open>0.0\<close> and the other an integer too large for
  a float. A segment has a positive duration when the difference is computed and is not
  \<^verbatim>\<open><= 0\<close>. Its numbers can be written when neither \<^verbatim>\<open>str(start_seconds)\<close> nor
  \<^verbatim>\<open>str(duration)\<close> raises, that is when neither is an integer of more digits than the
  limit. \<open>job_of\<close> is the command of a segment: the program, the input, the start, the
  duration and the output path built from the event id and the date.
\<close>

definition duration_of :: "segment \<Rightarrow> py_error + pynum" where
  "duration_of seg =
     (case time_to_seconds (start_time seg) of
        Inl e \<Rightarrow> Inl e
      | Inr start_seconds \<Rightarrow>
          (case time_to_seconds (end_time seg) of
             Inl e \<Rightarrow> Inl e
           | Inr end_seconds \<Rightarrow> sub_seconds end_seconds start_seconds))"

definition positive_duration :: "segment \<Rightarrow> bool" where
  "positive_duration seg = (case duration_of seg of Inl e \<Rightarrow> False | Inr d \<Rightarrow> \<not> le_zero d)"

fun seconds_fit :: "seconds \<Rightarrow> bool" where
  "seconds_fit (IntSeconds n) = (\<not> str_raises n)"
| "seconds_fit ZeroFloat = True"

fun duration_fits :: "pynum \<Rightarrow> bool" where
  "duration_fits (PyInt n) = (\<not> str_raises n)"
| "duration_fits (PyFloat x) = True"

definition writable :: "segment \<Rightarrow> bool" where
  "writable seg =
     ((case time_to_seconds (start_time seg) of Inl e \<Rightarrow> False | Inr s \<Rightarrow> seconds_fit s)
      \<and> (case duration_of seg of Inl e \<Rightarrow> False | Inr d \<Rightarrow> duration_fits d))"

definition has_job :: "segment \<Rightarrow> bool" where
  "has_job seg = (positive_duration seg \<and> writable seg)"

definition job_of :: "config \<Rightarrow> string \<Rightarrow> string \<Rightarrow> string \<Rightarrow> segment \<Rightarrow> ffmpeg_cmd" where
  "job_of cfg input_path output_dir today seg =
     \<lparr>cmd_program = ffmpeg_path cfg,
      cmd_input = path_str cfg input_path,
      cmd_ss = (case time_to_seconds (start_time seg) of Inl e \<Rightarrow> ZeroFloat | Inr s \<Rightarrow> s),
      cmd_t = (case duration_of seg of Inl e \<Rightarrow> PyFloat 0 | Inr d \<Rightarrow> d),
      cmd_output = path_join cfg output_dir (output_filename (event_id seg) today)\<rparr>"

text \<open>
  A cutter that keeps the list of the commands it was given: the state of the world is
  that list, and the outcome of each run is any function \<open>f\<close> of the commands before it
  and of the command.
\<close>

definition recording ::
  "(ffmpeg_cmd list \<Rightarrow> ffmpeg_cmd \<Rightarrow> error + int) \<Rightarrow>
   ffmpeg_cmd list \<Rightarrow> ffmpeg_cmd \<Rightarrow> (error + int) \<times> ffmpeg_cmd list" where
  "recording f h cmd = (f h cmd, h @ [cmd])"

text \<open>
  The outcomes of running a list of commands one after the other, each in the world its
  predecessor left: a return code, or the exception raised. A job with its outcome has
  succeeded when the outcome is the return code 0.
\<close>

fun cut_outcomes ::
  "('w \<Rightarrow> ffmpeg_cmd \<Rightarrow> (error + int) \<times> 'w) \<Rightarrow> 'w \<Rightarrow> ffmpeg_cmd list \<Rightarrow> (error + int) list" where
  "cut_outcomes run w [] = []"
| "cut_outcomes run w (cmd # cmds) =
     (case run w cmd of (r, w') \<Rightarrow> r # cut_outcomes run w' cmds)"

definition succeeded :: "ffmpeg_cmd \<times> (error + int) \<Rightarrow> bool" where
  "succeeded jr = (snd jr = Inr 0)"

text \<open>The jobs of a run: the commands that the iterations build, in their order.\<close>

definition planned ::
  "config \<Rightarrow> string \<Rightarrow> string \<Rightarrow> string \<Rightarrow> segment list \<Rightarrow> ffmpeg_cmd list" where
  "planned cfg input_path output_dir today segs =
     concat (map (\<lambda>seg. case plan_cut cfg input_path output_dir today seg of
                          Inl e \<Rightarrow> []
                        | Inr None \<Rightarrow> []
                        | Inr (Some cmd) \<Rightarrow> [cmd]) segs)"

section \<open>Properties of the timecode parser\<close>

lemma digits_tail_error: "digits_tail acc cs = Inl e \<Longrightarrow> e = ValueError"
  by (induction acc cs rule: digits_tail.induct) (auto split: if_splits)

lemma unsigned_int_error: "unsigned_int s = Inl e \<Longrightarrow> e = ValueError"
  by (auto simp: unsigned_int_def dest: digits_tail_error split: list.splits if_splits)

lemma py_int_error: "py_int s = Inl e \<Longrightarrow> e = ValueError"
  by (auto simp: py_int_def dest: unsigned_int_error split: list.splits if_splits sum.splits)

lemma time_to_seconds_try_error: "time_to_seconds_try t = Inl e \<Longrightarrow> e = ValueError"
  by (auto simp: time_to_seconds_try_def dest: py_int_error split: list.splits sum.splits)

lemma time_to_seconds_total: "\<exists>v. time_to_seconds t = Inr v"
  by (auto simp: time_to_seconds_def dest: time_to_seconds_try_error split: sum.splits)

text \<open>
  Claim C5. After trimming, a text with exactly two colon-separated fields that \<^verbatim>\<open>int\<close>
  accepts yields minutes * 60 + seconds, one with exactly three such fields yields
  hours * 3600 + minutes * 60 + seconds, and any other number of fields, or a field
  that \<^verbatim>\<open>int\<close> rejects, yields the fallback \<^verbatim>\<open>0.0\<close>; in no case does an exception leave
  the function. In particular "05:30" gives 330, "01:02:03" gives 3723 and "bad" gives
  the fallback.
\<close>

theorem time_to_seconds_shapes:
  "(split CHR '':'' (strip t) = [m, s] \<and> py_int m = Inr a \<and> py_int s = Inr b
      \<longrightarrow> time_to_seconds t = Inr (IntSeconds (a * 60 + b)))
   \<and> (split CHR '':'' (strip t) = [h, m, s] \<and> py_int h = Inr c \<and> py_int m = Inr a
        \<and> py_int s = Inr b
      \<longrightarrow> time_to_seconds t = Inr (IntSeconds (c * 3600 + a * 60 + b)))
   \<and> ((length (split CHR '':'' (strip t)) \<noteq> 2 \<and> length (split CHR '':'' (strip t)) \<noteq> 3)
        \<or> (\<exists>f \<in> set (split CHR '':'' (strip t)). \<exists>e. py_int f = Inl e)
      \<longrightarrow> time_to_seconds t = Inr ZeroFloat)
   \<and> time_to_seconds ''05:30'' = Inr (IntSeconds 330)
   \<and> time_to_seconds ''01:02:03'' = Inr (IntSeconds 3723)
   \<and> time_to_seconds ''bad'' = Inr ZeroFloat"
proof (intro conjI impI)
  assume "split CHR '':'' (strip t) = [m, s] \<and> py_int m = Inr a \<and> py_int s = Inr b"
  then show "time_to_seconds t = Inr (IntSeconds (a * 60 + b))"
    by (simp add: time_to_seconds_def time_to_seconds_try_def)
next
  assume "split CHR '':'' (strip t) = [h, m, s] \<and> py_int h = Inr c \<and> py_int m = Inr a
    \<and> py_int s = Inr b"
  then show "time_to_seconds t = Inr (IntSeconds (c * 3600 + a * 60 + b))"
    by (simp add: time_to_seconds_def time_to_seconds_try_def)
next
  assume bad: "(length (split CHR '':'' (strip t)) \<noteq> 2 \<and> length (split CHR '':'' (strip t)) \<noteq> 3)
        \<or> (\<exists>f \<in> set (split CHR '':'' (strip t)). \<exists>e. py_int f = Inl e)"
  have "\<exists>e. time_to_seconds_try t = Inl e"
    using bad by (auto simp: time_to_seconds_try_def split: list.splits sum.splits)
  then show "time_to_seconds t = Inr ZeroFloat"
    by (auto simp: time_to_seconds_def dest: time_to_seconds_try_error)
next
  show "time_to_seconds ''05:30'' = Inr (IntSeconds 330)" by code_simp
  show "time_to_seconds ''01:02:03'' = Inr (IntSeconds 3723)" by code_simp
  show "time_to_seconds ''bad'' = Inr ZeroFloat" by code_simp
qed

theorem time_to_seconds_shapes_witness:
  "split CHR '':'' (strip '' 7:08 '') = [''7'', ''08''] \<and> py_int ''7'' = Inr 7
   \<and> py_int ''08'' = Inr 8
   \<and> time_to_seconds '' 7:08 '' = Inr (IntSeconds 428)
   \<and> split CHR '':'' (strip ''1:00:07'') = [''1'', ''00'', ''07'']
   \<and> py_int ''1'' = Inr 1 \<and> py_int ''00'' = Inr 0 \<and> py_int ''07'' = Inr 7
   \<and> time_to_seconds ''1:00:07'' = Inr (IntSeconds 3607)
   \<and> length (split CHR '':'' (strip ''1:2:3:4'')) = 4
   \<and> time_to_seconds ''1:2:3:4'' = Inr ZeroFloat
   \<and> ''x'' \<in> set (split CHR '':'' (strip ''1:x'')) \<and> py_int ''x'' = Inl ValueError
   \<and> time_to_seconds ''1:x'' = Inr ZeroFloat"
proof -
  have a: "split CHR '':'' (strip '' 7:08 '') = [''7'', ''08'']" by code_simp
  have b: "py_int ''7'' = Inr 7" "py_int ''08'' = Inr 8" by code_simp+
  have c: "split CHR '':'' (strip ''1:00:07'') = [''1'', ''00'', ''07'']" by code_simp
  have d: "py_int ''1'' = Inr 1" "py_int ''00'' = Inr 0" "py_int ''07'' = Inr 7" by code_simp+
  have e: "length (split CHR '':'' (strip ''1:2:3:4'')) = 4" by code_simp
  have f: "py_int ''x'' = Inl ValueError" by code_simp
  have g: "split CHR '':'' (strip ''1:x'') = [''1'', ''x'']" by code_simp
  from time_to_seconds_shapes [of "'' 7:08 ''" "''7''" "''08''" 7 8] a b
  have r1: "time_to_seconds '' 7:08 '' = Inr (IntSeconds 428)" by simp
  from time_to_seconds_shapes [of "''1:00:07''" "''00''" "''07''" 0 7 "''1''" 1] c d
  have r2: "time_to_seconds ''1:00:07'' = Inr (IntSeconds 3607)" by simp
  from time_to_seconds_shapes [of "''1:2:3:4''"] e
  have r3: "time_to_seconds ''1:2:3:4'' = Inr ZeroFloat" by simp
  from time_to_seconds_shapes [of "''1:x''"] f g
  have r4: "time_to_seconds ''1:x'' = Inr ZeroFloat" by simp
  from a b c d e f g r1 r2 r3 r4 show ?thesis by simp
qed

lemma split_not_Nil: "split sep s \<noteq> []"
  by (induction s) (auto split: list.splits)

lemma split_no_sep: "sep \<notin> set s \<Longrightarrow> split sep s = [s]"
  by (induction s) auto

lemma split_append_sep:
  "sep \<notin> set a \<Longrightarrow> split sep (a @ sep # b) = a # split sep b"
  by (induction a) (auto split: list.splits)

lemma trim_right: "s \<noteq> [] \<Longrightarrow> \<not> P (last s) \<Longrightarrow> rev (dropWhile P (rev s)) = s"
  by (cases s rule: rev_cases) auto

lemma trim_ends:
  "s \<noteq> [] \<Longrightarrow> \<not> P (hd s) \<Longrightarrow> \<not> P (last s) \<Longrightarrow> rev (dropWhile P (rev (dropWhile P s))) = s"
proof -
  assume a: "s \<noteq> []" "\<not> P (hd s)" "\<not> P (last s)"
  then have "dropWhile P s = s" by (cases s) auto
  then show ?thesis using a by (simp add: trim_right)
qed

lemma strip_ends: "s \<noteq> [] \<Longrightarrow> \<not> isspace (hd s) \<Longrightarrow> \<not> isspace (last s) \<Longrightarrow> strip s = s"
  unfolding strip_def by (rule trim_ends)

lemma is_digit_chars:
  "is_digit c \<Longrightarrow> \<not> isspace c \<and> \<not> int_space c \<and> c \<noteq> CHR '':'' \<and> c \<noteq> CHR ''-'' \<and> c \<noteq> CHR ''+''"
  by (auto simp: is_digit_def isspace_def int_space_def less_eq_char_def)

lemma digits_tail_digits:
  "\<forall>c\<in>set cs. is_digit c \<Longrightarrow>
   digits_tail acc cs = Inr (foldl (\<lambda>a c. a * 10 + digit_val c) acc cs)"
  by (induction acc cs rule: digits_tail.induct) auto

lemma unsigned_int_digits:
  assumes "ds \<noteq> []" "\<forall>c\<in>set ds. is_digit c" "int (length ds) \<le> int_max_str_digits"
  shows "unsigned_int ds = Inr (decimal ds)"
proof -
  have "filter is_digit ds = ds" using assms(2) by simp
  then have "\<not> int_max_str_digits < int (length (filter is_digit ds))"
    using assms(3) by simp
  then show ?thesis
    using assms(1,2) unfolding unsigned_int_def
    by (cases ds) (simp_all add: decimal_def digits_tail_digits)
qed

lemma unsigned_int_long:
  "int_max_str_digits < int (length (filter is_digit s)) \<Longrightarrow> unsigned_int s = Inl ValueError"
  by (cases s) (simp_all add: unsigned_int_def)

lemma py_int_digits:
  assumes "ds \<noteq> []" "\<forall>c\<in>set ds. is_digit c" "int (length ds) \<le> int_max_str_digits"
  shows "py_int ds = Inr (decimal ds)"
proof -
  have "\<not> int_space (hd ds)" "\<not> int_space (last ds)"
    using assms is_digit_chars by (auto simp: hd_in_set)
  then have t: "rev (dropWhile int_space (rev (dropWhile int_space ds))) = ds"
    using assms(1) by (simp add: trim_ends)
  obtain c cs where ds: "ds = c # cs" using assms(1) by (cases ds) auto
  have "c \<noteq> CHR ''-''" "c \<noteq> CHR ''+''" using assms(2) is_digit_chars ds by auto
  then show ?thesis
    unfolding py_int_def t using unsigned_int_digits[OF assms] by (simp add: ds)
qed





section \<open>Properties of the response parser\<close>

lemma contains_decompose: "contains sub s \<Longrightarrow> \<exists>p r. s = p @ sub @ r"
proof (induction s)
  case Nil
  then show ?case by simp
next
  case (Cons c cs)
  show ?case
  proof (cases "prefix sub (c # cs)")
    case True
    then obtain r where "c # cs = sub @ r" by (auto simp: prefix_def)
    then have "c # cs = [] @ sub @ r" by simp
    then show ?thesis by blast
  next
    case False
    with Cons.prems have "contains sub cs" by simp
    then obtain p r where "cs = p @ sub @ r" using Cons.IH by blast
    then have "c # cs = (c # p) @ sub @ r" by simp
    then show ?thesis by blast
  qed
qed

lemma length_split: "length (split sep s) = Suc (count_list s sep)"
  by (induction s) (auto split: list.splits simp: split_not_Nil)

lemma lower_char_comma: "lower_char c = CHR '','' \<longleftrightarrow> c = CHR '',''"
proof
  assume l: "lower_char c = CHR '',''"
  show "c = CHR '',''"
  proof (rule ccontr)
    assume n: "c \<noteq> CHR '',''"
    with l have u: "is_upper c" and v: "char_of ((of_char c :: nat) + 32) = CHR '',''"
      by (auto simp: lower_char_def split: if_splits)
    from v have "((of_char c :: nat) + 32) mod 256 = 44"
      by (simp add: char_of_eq_iff take_bit_eq_mod)
    moreover from u have "65 \<le> (of_char c :: nat)" "(of_char c :: nat) \<le> 222"
      by (auto simp: is_upper_def Let_def)
    ultimately show False by (simp add: mod_if split: if_splits)
  qed
next
  assume "c = CHR '',''"
  then show "lower_char c = CHR '',''" by (simp add: lower_char_def is_upper_def)
qed

lemma count_commas_lower: "count_list (lower s) CHR '','' = count_list s CHR '',''"
  by (induction s) (auto simp: lower_def lower_char_comma)

lemma header_is_table_shaped:
  assumes "contains header_tokens (lower l)"
  shows "CHR '','' \<in> set l \<and> 3 \<le> length (split CHR '','' l)"
proof -
  obtain p r where "lower l = p @ header_tokens @ r"
    using contains_decompose[OF assms] by blast
  then have "count_list (lower l) CHR '','' =
      count_list p CHR '','' + count_list header_tokens CHR '','' + count_list r CHR '',''"
    by simp
  moreover have "count_list header_tokens CHR '','' = 2"
    by (simp add: header_tokens_def)
  ultimately have two: "2 \<le> count_list l CHR '',''"
    by (simp add: count_commas_lower)
  then have "CHR '','' \<in> set l"
    by (metis count_list_0_iff not_numeral_le_zero)
  with two show ?thesis by (simp add: length_split)
qed


lemma scan_step_header:
  "contains header_tokens (lower (strip l)) \<Longrightarrow>
   scan_lines in_csv acc (l # ls) = scan_lines True (acc @ [strip l]) ls"
  by (simp add: Let_def)

lemma scan_step_capturing:
  "\<not> contains header_tokens (lower (strip l)) \<Longrightarrow>
   scan_lines True acc (l # ls) =
     (if table_shaped (strip l) then scan_lines True (acc @ [strip l]) ls
      else if strip l = [] then scan_lines True acc ls
      else acc)"
  by (simp add: Let_def table_shaped_def)

lemma scan_step_searching:
  "\<not> contains header_tokens (lower (strip l)) \<Longrightarrow>
   scan_lines False acc (l # ls) = scan_lines False acc ls"
  by (simp add: Let_def)

lemma blank_not_table_shaped: "\<not> table_shaped []"
  by (simp add: table_shaped_def)

lemma scan_lines_capturing:
  "scan_lines True acc ls =
     acc @ filter (\<lambda>l. l \<noteq> []) (takeWhile (\<lambda>l. table_shaped l \<or> l = []) (map strip ls))"
proof (induction ls arbitrary: acc)
  case Nil
  then show ?case by simp
next
  case (Cons l ls)
  show ?case
  proof (cases "contains header_tokens (lower (strip l))")
    case True
    then have "table_shaped (strip l)"
      using header_is_table_shaped[OF True] by (simp add: table_shaped_def)
    moreover from this have "strip l \<noteq> []" by (auto simp: table_shaped_def)
    ultimately show ?thesis
      by (simp add: scan_step_header[OF True] Cons.IH del: scan_lines.simps)
  next
    case False
    show ?thesis
      by (simp add: scan_step_capturing[OF False] Cons.IH blank_not_table_shaped
          del: scan_lines.simps)
  qed
qed

lemma scan_lines_searching:
  "scan_lines False acc ls = acc @ fallback_capture (map strip ls)"
proof (induction ls arbitrary: acc)
  case Nil
  then show ?case by (simp add: fallback_capture_def)
next
  case (Cons l ls)
  show ?case
  proof (cases "contains header_tokens (lower (strip l))")
    case True
    then have "has_header (strip l)" by (simp add: has_header_def)
    then show ?thesis
      by (simp add: scan_step_header[OF True] scan_lines_capturing fallback_capture_def
          del: scan_lines.simps)
  next
    case False
    then have "\<not> has_header (strip l)" by (simp add: has_header_def)
    then show ?thesis
      by (simp add: scan_step_searching[OF False] Cons.IH fallback_capture_def
          del: scan_lines.simps)
  qed
qed

text \<open>
  Claim C1. When the response has no fenced block, the candidate text is the capture of
  the line-by-line scan over the trimmed lines of the trimmed response: lines before
  the first line with the header are ignored, that line is captured, every later
  table-shaped line is captured, empty lines are passed over, and the capture stops at
  the first line that is neither empty nor table-shaped. The captured lines are joined
  by newlines.
\<close>

theorem fallback_scan:
  "csv_search response = None \<Longrightarrow>
   csv_content response =
     join [CHR 0x0A] (fallback_capture (map strip (split (CHR 0x0A) (strip response))))"
  by (simp add: csv_content_def scan_lines_searching)

theorem fallback_scan_witness:
  "csv_search (''Here you go:'' @ [CHR 0x0A] @ ''Event_ID,Start_Time,End_Time'' @ [CHR 0x0A]
      @ ''ev1,00:00,01:30'' @ [CHR 0x0A] @ [CHR 0x0A] @ '' ev2,01:30,02:00 '' @ [CHR 0x0A]
      @ ''That is all.'' @ [CHR 0x0A] @ ''ev3,1,2'') = None
   \<and> csv_content (''Here you go:'' @ [CHR 0x0A] @ ''Event_ID,Start_Time,End_Time'' @ [CHR 0x0A]
      @ ''ev1,00:00,01:30'' @ [CHR 0x0A] @ [CHR 0x0A] @ '' ev2,01:30,02:00 '' @ [CHR 0x0A]
      @ ''That is all.'' @ [CHR 0x0A] @ ''ev3,1,2'')
     = ''Event_ID,Start_Time,End_Time'' @ [CHR 0x0A] @ ''ev1,00:00,01:30'' @ [CHR 0x0A]
       @ ''ev2,01:30,02:00''"
proof -
  let ?r = "''Here you go:'' @ [CHR 0x0A] @ ''Event_ID,Start_Time,End_Time'' @ [CHR 0x0A]
      @ ''ev1,00:00,01:30'' @ [CHR 0x0A] @ [CHR 0x0A] @ '' ev2,01:30,02:00 '' @ [CHR 0x0A]
      @ ''That is all.'' @ [CHR 0x0A] @ ''ev3,1,2''"
  have n: "csv_search ?r = None" by code_simp
  have c: "join [CHR 0x0A] (fallback_capture (map strip (split (CHR 0x0A) (strip ?r))))
      = ''Event_ID,Start_Time,End_Time'' @ [CHR 0x0A] @ ''ev1,00:00,01:30'' @ [CHR 0x0A]
        @ ''ev2,01:30,02:00''"
    by code_simp
  from fallback_scan [OF n] c n show ?thesis by simp
qed

lemma parse_rows_step:
  "parse_rows acc (l # ls) =
     parse_rows (if row_accepted l then acc @ [row_record l] else acc) ls"
proof (cases "3 \<le> length (split CHR '','' (strip l))")
  case True
  then have "index (split CHR '','' (strip l)) 0 = Inr (split CHR '','' (strip l) ! 0)"
    "index (split CHR '','' (strip l)) 1 = Inr (split CHR '','' (strip l) ! 1)"
    "index (split CHR '','' (strip l)) 2 = Inr (split CHR '','' (strip l) ! 2)"
    by (simp_all add: index_def split_not_Nil)
  with True show ?thesis
    by (simp add: Let_def row_accepted_def row_record_def)
next
  case False
  then show ?thesis
    by (simp add: Let_def row_accepted_def)
qed

lemma parse_rows_eq:
  "parse_rows acc ls = Inr (acc @ map row_record (filter row_accepted ls))"
  by (induction ls arbitrary: acc) (simp_all add: parse_rows_step del: parse_rows.simps(2))

lemma strip_lr: "strip s = rstrip (lstrip s)"
  by (simp add: strip_def lstrip_def rstrip_def)

lemma rstrip_Cons:
  "rstrip (c # xs) = (if isspace c \<and> (\<forall>x\<in>set xs. isspace x) then [] else c # rstrip xs)"
  by (auto simp: rstrip_def dropWhile_append)

lemma lstrip_rstrip: "lstrip (rstrip xs) = rstrip (lstrip xs)"
proof (induction xs)
  case Nil
  then show ?case by (simp add: lstrip_def rstrip_def)
next
  case (Cons c xs)
  show ?case
  proof (cases "isspace c")
    case sp: True
    show ?thesis
    proof (cases "\<forall>x\<in>set xs. isspace x")
      case True
      then have l: "lstrip (c # xs) = []" using sp by (simp add: lstrip_def)
      have r: "rstrip (c # xs) = []" using sp True by (simp add: rstrip_Cons)
      show ?thesis unfolding l r by (simp add: lstrip_def rstrip_def)
    next
      case False
      with sp have "rstrip (c # xs) = c # rstrip xs" by (auto simp: rstrip_Cons)
      with sp have "lstrip (rstrip (c # xs)) = lstrip (rstrip xs)" by (simp add: lstrip_def)
      moreover from sp have "lstrip (c # xs) = lstrip xs" by (simp add: lstrip_def)
      ultimately show ?thesis using Cons.IH by simp
    qed
  next
    case False
    then show ?thesis by (simp add: rstrip_Cons lstrip_def)
  qed
qed

lemma lstrip_idem: "lstrip (lstrip s) = lstrip s"
  by (simp add: lstrip_def)

lemma rstrip_idem: "rstrip (rstrip s) = rstrip s"
  by (simp add: rstrip_def)

lemma strip_lstrip: "strip (lstrip s) = strip s"
  by (simp add: strip_lr lstrip_idem)

lemma strip_rstrip: "strip (rstrip s) = strip s"
  by (simp add: strip_lr lstrip_rstrip rstrip_idem)

lemma strip_idem: "strip (strip s) = strip s"
  by (simp add: strip_lr lstrip_rstrip rstrip_idem lstrip_idem)

lemma strip_Nil_iff: "strip s = [] \<longleftrightarrow> (\<forall>c\<in>set s. isspace c)"
proof
  assume "strip s = []"
  then have all: "\<forall>c\<in>set (dropWhile isspace s). isspace c" by (simp add: strip_def)
  have "dropWhile isspace s = []"
  proof (rule ccontr)
    assume ne: "dropWhile isspace s \<noteq> []"
    then have "\<not> isspace (hd (dropWhile isspace s))" by (rule hd_dropWhile)
    with all ne show False by (simp add: hd_in_set)
  qed
  then show "\<forall>c\<in>set s. isspace c" by simp
next
  assume "\<forall>c\<in>set s. isspace c"
  then have d: "dropWhile isspace s = []" by simp
  show "strip s = []" unfolding strip_def d by simp
qed

lemma join_Cons: "join [c] (x # xs) = x @ concat (map ((#) c) xs)"
  by (induction xs arbitrary: x) simp_all

lemma split_join:
  "\<forall>l\<in>set (x # xs). sep \<notin> set l \<Longrightarrow> split sep (join [sep] (x # xs)) = x # xs"
proof (induction xs arbitrary: x)
  case Nil
  then show ?case by (simp add: split_no_sep)
next
  case (Cons y ys)
  then have "split sep (join [sep] (y # ys)) = y # ys" by simp
  moreover have "sep \<notin> set x" using Cons.prems by simp
  ultimately show ?case
    using split_append_sep[of sep x "join [sep] (y # ys)"] by simp
qed

lemma until_fence_line:
  "CHR 0x0A \<notin> set a \<Longrightarrow> until_fence (a @ s) = map_option ((@) a) (until_fence s)"
proof (induction a)
  case Nil
  then show ?case by (simp add: option.map_ident)
next
  case (Cons c a)
  then have "\<not> prefix fence_close (c # a @ s)" by (auto simp: fence_close_def)
  with Cons show ?case by (simp add: option.map_comp comp_def)
qed

lemma until_fence_close: "until_fence (fence_close @ t) = Some []"
  by (simp add: fence_close_def)

lemma ticks_not_across_newline:
  "prefix ''```'' (r @ CHR 0x0A # s) \<Longrightarrow> prefix ''```'' r"
  by (auto simp: prefix_append Cons_eq_append_conv prefix_Cons)

lemma until_fence_row:
  assumes "CHR 0x0A \<notin> set r" "\<not> prefix ''```'' r"
  shows "until_fence (CHR 0x0A # r @ CHR 0x0A # s)
           = map_option ((@) (CHR 0x0A # r)) (until_fence (CHR 0x0A # s))"
proof -
  have "\<not> prefix ''```'' (r @ CHR 0x0A # s)"
    using assms(2) ticks_not_across_newline by blast
  then have "\<not> prefix fence_close (CHR 0x0A # r @ CHR 0x0A # s)"
    by (simp add: fence_close_def)
  then have "until_fence (CHR 0x0A # r @ CHR 0x0A # s)
      = map_option ((#) (CHR 0x0A)) (until_fence (r @ CHR 0x0A # s))"
    by simp
  also have "\<dots> = map_option ((#) (CHR 0x0A)) (map_option ((@) r) (until_fence (CHR 0x0A # s)))"
    using until_fence_line[OF assms(1)] by simp
  finally show ?thesis by (simp add: option.map_comp comp_def)
qed

lemma until_fence_rows:
  "\<forall>r\<in>set rows. CHR 0x0A \<notin> set r \<and> \<not> prefix ''```'' r \<Longrightarrow>
   until_fence (concat (map ((#) (CHR 0x0A)) rows) @ fence_close @ t)
     = Some (concat (map ((#) (CHR 0x0A)) rows))"
proof (induction rows)
  case Nil
  then show ?case by (simp add: until_fence_close)
next
  case (Cons r rows)
  obtain s where s: "concat (map ((#) (CHR 0x0A)) rows) @ fence_close @ t = CHR 0x0A # s"
    by (cases rows) (simp_all add: fence_close_def)
  have pr: "\<forall>r\<in>set rows. CHR 0x0A \<notin> set r \<and> \<not> prefix ''```'' r"
    using Cons.prems by simp
  have r: "CHR 0x0A \<notin> set r" "\<not> prefix ''```'' r" using Cons.prems by simp_all
  have step: "until_fence (CHR 0x0A # r @ CHR 0x0A # s)
      = map_option ((@) (CHR 0x0A # r)) (until_fence (CHR 0x0A # s))"
    by (rule until_fence_row[OF r])
  have ih: "until_fence (CHR 0x0A # s) = Some (concat (map ((#) (CHR 0x0A)) rows))"
    using Cons.IH[OF pr] unfolding s .
  have e: "concat (map ((#) (CHR 0x0A)) (r # rows)) @ fence_close @ t
      = CHR 0x0A # r @ CHR 0x0A # s"
    using s by simp
  show ?case unfolding e step ih by simp
qed

lemma after_tag_no_newline:
  "CHR 0x0A \<notin> set (takeWhile isspace s) \<Longrightarrow> after_tag s = None"
  by (induction s) (auto simp: isspace_def)

lemma after_tag_header:
  assumes "CHR 0x0A \<notin> set hdr" "strip hdr \<noteq> []"
  shows "after_tag (CHR 0x0A # hdr @ rest) = until_fence (hdr @ rest)"
proof -
  obtain c where "c \<in> set hdr" "\<not> isspace c"
    using assms(2) by (auto simp: strip_Nil_iff)
  then have "takeWhile isspace (hdr @ rest) = takeWhile isspace hdr" by simp
  then have "CHR 0x0A \<notin> set (takeWhile isspace (hdr @ rest))"
    using assms(1) by (auto dest: set_takeWhileD)
  then have "after_tag (hdr @ rest) = None" by (rule after_tag_no_newline)
  then show ?thesis by (simp add: isspace_def)
qed

lemma tag_no_overlap:
  "''```csv'' = a @ us \<Longrightarrow> a \<noteq> [] \<Longrightarrow> us \<noteq> [] \<Longrightarrow> \<not> prefix us (''```csv'' @ t)"
  by (auto simp: Cons_eq_append_conv prefix_Cons)

lemma csv_search_noprefix:
  "\<not> prefix ''```csv'' (c # s) \<Longrightarrow> csv_search (c # s) = csv_search s"
  by auto

lemma csv_search_skip:
  "\<not> contains ''```csv'' p \<Longrightarrow> csv_search (p @ ''```csv'' @ t) = csv_search (''```csv'' @ t)"
proof (induction p)
  case Nil
  then show ?case by simp
next
  case (Cons c p)
  then have np: "\<not> prefix ''```csv'' (c # p)" and nc: "\<not> contains ''```csv'' p" by simp_all
  have e: "(c # p) @ ''```csv'' @ t = c # (p @ ''```csv'' @ t)" by simp
  have npp: "\<not> prefix ''```csv'' ((c # p) @ ''```csv'' @ t)"
  proof
    assume "prefix ''```csv'' ((c # p) @ ''```csv'' @ t)"
    with np obtain us where us: "''```csv'' = (c # p) @ us" "prefix us (''```csv'' @ t)"
      unfolding prefix_append by blast
    with np have ne: "us \<noteq> []" by auto
    have "\<not> prefix us (''```csv'' @ t)"
      by (rule tag_no_overlap[OF us(1) _ ne]) simp
    with us(2) show False by simp
  qed
  from npp have npp': "\<not> prefix ''```csv'' (c # (p @ ''```csv'' @ t))" unfolding e .
  have step: "csv_search (c # (p @ ''```csv'' @ t)) = csv_search (p @ ''```csv'' @ t)"
    by (rule csv_search_noprefix[OF npp'])
  show ?case unfolding e by (rule trans[OF step Cons.IH[OF nc]])
qed

lemma csv_search_tag:
  "after_tag t = Some g \<Longrightarrow> csv_search (''```csv'' @ t) = Some g"
  by simp

lemma csv_search_fenced:
  assumes "\<not> contains ''```csv'' before"
    and "CHR 0x0A \<notin> set hdr" "strip hdr \<noteq> []"
    and "\<forall>r\<in>set rows. CHR 0x0A \<notin> set r \<and> \<not> prefix ''```'' r"
  shows "csv_search (fenced_response before hdr rows after) = Some (join [CHR 0x0A] (hdr # rows))"
proof -
  let ?m = "concat (map ((#) (CHR 0x0A)) rows)"
  have "until_fence (hdr @ ?m @ fence_close @ after) = Some (hdr @ ?m)"
    using until_fence_line[OF assms(2)] until_fence_rows[OF assms(4)] by simp
  then have "after_tag (CHR 0x0A # hdr @ ?m @ fence_close @ after) = Some (hdr @ ?m)"
    using after_tag_header[OF assms(2,3)] by simp
  then have "csv_search (''```csv'' @ CHR 0x0A # hdr @ ?m @ fence_close @ after) = Some (hdr @ ?m)"
    by (rule csv_search_tag)
  then have "csv_search (before @ ''```csv'' @ CHR 0x0A # hdr @ ?m @ fence_close @ after)
      = Some (hdr @ ?m)"
    using csv_search_skip[OF assms(1)] by simp
  then show ?thesis by (simp add: fenced_response_def join_Cons)
qed

lemma lstrip_append: "\<exists>c\<in>set a. \<not> isspace c \<Longrightarrow> lstrip (a @ b) = lstrip a @ b"
  by (auto simp: lstrip_def)

lemma rstrip_append: "\<exists>c\<in>set b. \<not> isspace c \<Longrightarrow> rstrip (a @ b) = a @ rstrip b"
  by (auto simp: rstrip_def)

lemma nonblank_char: "strip s \<noteq> [] \<Longrightarrow> \<exists>c\<in>set s. \<not> isspace c"
  by (simp add: strip_Nil_iff)

lemma set_lstrip: "set (lstrip s) \<subseteq> set s"
  by (auto simp: lstrip_def dest: set_dropWhileD)

lemma set_rstrip: "set (rstrip s) \<subseteq> set s"
  by (auto simp: rstrip_def dest: set_dropWhileD)

lemma set_strip: "set (strip s) \<subseteq> set s"
  unfolding strip_lr using set_lstrip set_rstrip by blast

lemma lines_of_table:
  assumes "CHR 0x0A \<notin> set hdr" "strip hdr \<noteq> []"
    and "\<forall>r\<in>set rows. CHR 0x0A \<notin> set r \<and> strip r \<noteq> []"
  shows "split (CHR 0x0A) (strip (join [CHR 0x0A] (hdr # rows)))
    = (if rows = [] then [strip hdr] else lstrip hdr # butlast rows @ [rstrip (last rows)])"
proof (cases rows rule: rev_cases)
  case Nil
  have "CHR 0x0A \<notin> set (strip hdr)" using assms(1) set_strip by blast
  then show ?thesis using Nil by (simp add: split_no_sep)
next
  case (snoc rs rl)
  let ?m = "concat (map ((#) (CHR 0x0A)) rs)"
  have h: "\<exists>c\<in>set hdr. \<not> isspace c" using assms(2) by (rule nonblank_char)
  have l: "\<exists>c\<in>set rl. \<not> isspace c" using assms(3) snoc by (simp add: nonblank_char)
  have j: "join [CHR 0x0A] (hdr # rows) = hdr @ (?m @ CHR 0x0A # rl)"
    by (simp add: join_Cons snoc)
  have "lstrip (hdr @ (?m @ CHR 0x0A # rl)) = lstrip hdr @ (?m @ CHR 0x0A # rl)"
    using h by (rule lstrip_append)
  moreover have "rstrip ((lstrip hdr @ ?m @ [CHR 0x0A]) @ rl) = (lstrip hdr @ ?m @ [CHR 0x0A]) @ rstrip rl"
    using l by (rule rstrip_append)
  ultimately have s: "strip (join [CHR 0x0A] (hdr # rows)) = lstrip hdr @ ?m @ CHR 0x0A # rstrip rl"
    by (simp add: strip_lr j)
  have "lstrip hdr @ ?m @ CHR 0x0A # rstrip rl = join [CHR 0x0A] (lstrip hdr # rs @ [rstrip rl])"
    by (simp add: join_Cons)
  moreover have "\<forall>l\<in>set (lstrip hdr # rs @ [rstrip rl]). CHR 0x0A \<notin> set l"
    using assms(1,3) snoc set_lstrip[of hdr] set_rstrip[of rl] by auto
  ultimately have "split (CHR 0x0A) (strip (join [CHR 0x0A] (hdr # rows))) = lstrip hdr # rs @ [rstrip rl]"
    using s split_join[of "lstrip hdr" "rs @ [rstrip rl]" "CHR 0x0A"] by simp
  then show ?thesis using snoc by simp
qed

lemma row_accepted_rstrip: "row_accepted (rstrip r) = row_accepted r"
  by (simp add: row_accepted_def strip_rstrip)

lemma row_record_rstrip: "row_record (rstrip r) = row_record r"
  by (simp add: row_record_def strip_rstrip)

lemma row_accepted_nonblank: "row_accepted r \<Longrightarrow> strip r \<noteq> []"
  by (auto simp: row_accepted_def Let_def)

lemma parse_csv_response_try_eq:
  "parse_csv_response_try response =
     Inr (if 2 \<le> length (split (CHR 0x0A) (strip (csv_content response)))
          then map row_record (filter row_accepted
                 (drop 1 (split (CHR 0x0A) (strip (csv_content response)))))
          else [])"
  by (auto simp: parse_csv_response_try_def Let_def parse_rows_eq strip_def)

lemma parse_csv_response_eq:
  "parse_csv_response response =
     (if 2 \<le> length (split (CHR 0x0A) (strip (csv_content response)))
      then map row_record (filter row_accepted
             (drop 1 (split (CHR 0x0A) (strip (csv_content response)))))
      else [])"
  by (simp add: parse_csv_response_def parse_csv_response_try_eq)

lemma parse_fenced:
  assumes "\<not> contains ''```csv'' before"
    and "CHR 0x0A \<notin> set hdr" "strip hdr \<noteq> []"
    and "\<forall>r\<in>set rows. CHR 0x0A \<notin> set r \<and> \<not> prefix ''```'' r \<and> row_accepted r"
  shows "parse_csv_response (fenced_response before hdr rows after) = map row_record rows"
proof -
  have "csv_search (fenced_response before hdr rows after) = Some (join [CHR 0x0A] (hdr # rows))"
    using assms by (intro csv_search_fenced) auto
  then have c: "csv_content (fenced_response before hdr rows after)
      = strip (join [CHR 0x0A] (hdr # rows))"
    by (simp add: csv_content_def)
  have nb: "\<forall>r\<in>set rows. CHR 0x0A \<notin> set r \<and> strip r \<noteq> []"
    using assms(4) row_accepted_nonblank by blast
  note ls = lines_of_table[OF assms(2,3) nb]
  show ?thesis
  proof (cases "rows = []")
    case True
    show ?thesis unfolding parse_csv_response_eq c strip_idem ls using True by simp
  next
    case False
    then have r: "butlast rows @ [last rows] = rows" by simp
    have acc: "\<forall>r\<in>set (butlast rows). row_accepted r"
      using assms(4) by (auto dest: in_set_butlastD)
    have lacc: "row_accepted (last rows)" using assms(4) False by simp
    have "map row_record (filter row_accepted (butlast rows @ [rstrip (last rows)]))
        = map row_record (butlast rows) @ [row_record (last rows)]"
      using acc lacc by (simp add: row_accepted_rstrip row_record_rstrip)
    also have "\<dots> = map row_record (butlast rows @ [last rows])" by simp
    finally have "map row_record (filter row_accepted (butlast rows @ [rstrip (last rows)]))
        = map row_record rows"
      unfolding r .
    moreover have "Suc 0 \<le> length rows" using False by (cases rows) simp_all
    ultimately show ?thesis unfolding parse_csv_response_eq c strip_idem ls using False by simp
  qed
qed

text \<open>
  Claim C2. When the candidate text has at least two lines, the first line is discarded
  and the result is the list of the records of the accepted lines among the others, in
  their order: a line is accepted exactly when it splits into at least three fields whose
  first three are not empty after trimming, and its record holds these three trimmed
  fields. In particular, for a response with a fenced table (no opening fence in the text
  before it, a header line that is not blank, and rows that are accepted, contain no
  newline and do not start with three backquotes), the result is the list of the records
  of the rows, one for each row, in order.
\<close>

theorem table_rows:
  "(2 \<le> length (split (CHR 0x0A) (strip (csv_content response)))
      \<longrightarrow> parse_csv_response response =
            map row_record (filter row_accepted
              (drop 1 (split (CHR 0x0A) (strip (csv_content response))))))
   \<and> (\<not> contains ''```csv'' before \<and> CHR 0x0A \<notin> set hdr \<and> strip hdr \<noteq> []
       \<and> (\<forall>r\<in>set rows. CHR 0x0A \<notin> set r \<and> \<not> prefix ''```'' r \<and> row_accepted r)
      \<longrightarrow> parse_csv_response (fenced_response before hdr rows after) = map row_record rows
          \<and> length (parse_csv_response (fenced_response before hdr rows after)) = length rows)"
proof (intro conjI impI)
  assume "2 \<le> length (split (CHR 0x0A) (strip (csv_content response)))"
  then show "parse_csv_response response =
      map row_record (filter row_accepted
        (drop 1 (split (CHR 0x0A) (strip (csv_content response)))))"
    by (simp add: parse_csv_response_eq)
next
  assume a: "\<not> contains ''```csv'' before \<and> CHR 0x0A \<notin> set hdr \<and> strip hdr \<noteq> []
       \<and> (\<forall>r\<in>set rows. CHR 0x0A \<notin> set r \<and> \<not> prefix ''```'' r \<and> row_accepted r)"
  then show p: "parse_csv_response (fenced_response before hdr rows after) = map row_record rows"
    by (intro parse_fenced) blast+
  show "length (parse_csv_response (fenced_response before hdr rows after)) = length rows"
    unfolding p by simp
qed

theorem table_rows_witness:
  "2 \<le> length (split (CHR 0x0A) (strip (csv_content
       (''```csv'' @ [CHR 0x0A] @ ''id,start,end'' @ [CHR 0x0A] @ '' a , 1:00 ,2:00,extra''
        @ [CHR 0x0A] @ '',x,y'' @ [CHR 0x0A] @ ''b,2'' @ [CHR 0x0A] @ ''c,3,4'' @ [CHR 0x0A]
        @ ''```''))))
   \<and> parse_csv_response
       (''```csv'' @ [CHR 0x0A] @ ''id,start,end'' @ [CHR 0x0A] @ '' a , 1:00 ,2:00,extra''
        @ [CHR 0x0A] @ '',x,y'' @ [CHR 0x0A] @ ''b,2'' @ [CHR 0x0A] @ ''c,3,4'' @ [CHR 0x0A]
        @ ''```'')
     = [\<lparr>event_id = ''a'', start_time = ''1:00'', end_time = ''2:00''\<rparr>,
        \<lparr>event_id = ''c'', start_time = ''3'', end_time = ''4''\<rparr>]
   \<and> \<not> contains ''```csv'' ''Here is the table:''
   \<and> CHR 0x0A \<notin> set ''event_id,start_time,end_time''
   \<and> strip ''event_id,start_time,end_time'' \<noteq> []
   \<and> list_all (\<lambda>r. CHR 0x0A \<notin> set r \<and> \<not> prefix ''```'' r \<and> row_accepted r)
        [''ev1,00:00,01:30'', ''ev2,01:30,01:10'', ''ev3,02:00,03:45'']
   \<and> parse_csv_response
       (fenced_response ''Here is the table:'' ''event_id,start_time,end_time''
          [''ev1,00:00,01:30'', ''ev2,01:30,01:10'', ''ev3,02:00,03:45''] ''Done.'')
     = [\<lparr>event_id = ''ev1'', start_time = ''00:00'', end_time = ''01:30''\<rparr>,
        \<lparr>event_id = ''ev2'', start_time = ''01:30'', end_time = ''01:10''\<rparr>,
        \<lparr>event_id = ''ev3'', start_time = ''02:00'', end_time = ''03:45''\<rparr>]
   \<and> length (parse_csv_response
       (fenced_response ''Here is the table:'' ''event_id,start_time,end_time''
          [''ev1,00:00,01:30'', ''ev2,01:30,01:10'', ''ev3,02:00,03:45''] ''Done.'')) = 3"
proof -
  let ?r = "''```csv'' @ [CHR 0x0A] @ ''id,start,end'' @ [CHR 0x0A] @ '' a , 1:00 ,2:00,extra''
        @ [CHR 0x0A] @ '',x,y'' @ [CHR 0x0A] @ ''b,2'' @ [CHR 0x0A] @ ''c,3,4'' @ [CHR 0x0A]
        @ ''```''"
  let ?rows = "[''ev1,00:00,01:30'', ''ev2,01:30,01:10'', ''ev3,02:00,03:45'']"
  have a: "2 \<le> length (split (CHR 0x0A) (strip (csv_content ?r)))" by code_simp
  have b: "map row_record (filter row_accepted
              (drop 1 (split (CHR 0x0A) (strip (csv_content ?r)))))
      = [\<lparr>event_id = ''a'', start_time = ''1:00'', end_time = ''2:00''\<rparr>,
         \<lparr>event_id = ''c'', start_time = ''3'', end_time = ''4''\<rparr>]"
    by code_simp
  have c: "\<not> contains ''```csv'' ''Here is the table:''" by code_simp
  have d: "CHR 0x0A \<notin> set ''event_id,start_time,end_time''" by simp
  have e: "strip ''event_id,start_time,end_time'' \<noteq> []" by code_simp
  have f: "list_all (\<lambda>r. CHR 0x0A \<notin> set r \<and> \<not> prefix ''```'' r \<and> row_accepted r) ?rows"
    by code_simp
  then have f': "\<forall>r\<in>set ?rows. CHR 0x0A \<notin> set r \<and> \<not> prefix ''```'' r \<and> row_accepted r"
    unfolding list_all_iff .
  have g: "map row_record ?rows
      = [\<lparr>event_id = ''ev1'', start_time = ''00:00'', end_time = ''01:30''\<rparr>,
         \<lparr>event_id = ''ev2'', start_time = ''01:30'', end_time = ''01:10''\<rparr>,
         \<lparr>event_id = ''ev3'', start_time = ''02:00'', end_time = ''03:45''\<rparr>]"
    by code_simp
  note t = table_rows [of ?r "''Here is the table:''" "''event_id,start_time,end_time''" ?rows
      "''Done.''"]
  from t a b have r1: "parse_csv_response ?r
      = [\<lparr>event_id = ''a'', start_time = ''1:00'', end_time = ''2:00''\<rparr>,
         \<lparr>event_id = ''c'', start_time = ''3'', end_time = ''4''\<rparr>]"
    by (simp only:)
  from t c d e f' have r2: "parse_csv_response
       (fenced_response ''Here is the table:'' ''event_id,start_time,end_time'' ?rows ''Done.'')
      = map row_record ?rows"
    by blast
  from a r1 c d e f r2 g show ?thesis by (simp only: list.size) simp
qed

lemma no_header_no_capture:
  "\<forall>l\<in>set ls. \<not> has_header l \<Longrightarrow> fallback_capture ls = []"
proof -
  assume "\<forall>l\<in>set ls. \<not> has_header l"
  then have d: "dropWhile (\<lambda>l. \<not> has_header l) ls = []" by simp
  show ?thesis unfolding fallback_capture_def d by simp
qed

text \<open>
  Claim C3. The body of the function raises on no response, so the function returns a
  list on every response. The list is empty when the candidate text is empty, when it
  has fewer than two lines, and in particular when the response has neither a fenced
  block nor a line with the header.
\<close>

theorem parse_never_raises:
  "(\<exists>segs. parse_csv_response_try response = Inr segs)
   \<and> (csv_content response = [] \<longrightarrow> parse_csv_response response = [])
   \<and> (length (split (CHR 0x0A) (strip (csv_content response))) < 2
        \<longrightarrow> parse_csv_response response = [])
   \<and> (csv_search response = None
        \<and> (\<forall>l\<in>set (split (CHR 0x0A) (strip response)). \<not> has_header (strip l))
        \<longrightarrow> csv_content response = [] \<and> parse_csv_response response = [])"
proof (intro conjI impI)
  show "\<exists>segs. parse_csv_response_try response = Inr segs"
    by (simp add: parse_csv_response_try_eq)
  show "parse_csv_response response = []" if "csv_content response = []"
    using that by (simp add: parse_csv_response_eq strip_def)
  show "parse_csv_response response = []"
    if "length (split (CHR 0x0A) (strip (csv_content response))) < 2"
    using that by (simp add: parse_csv_response_eq)
  assume a: "csv_search response = None
        \<and> (\<forall>l\<in>set (split (CHR 0x0A) (strip response)). \<not> has_header (strip l))"
  then have "fallback_capture (map strip (split (CHR 0x0A) (strip response))) = []"
    by (intro no_header_no_capture) auto
  with a show c: "csv_content response = []"
    by (simp add: csv_content_def scan_lines_searching)
  then show "parse_csv_response response = []"
    by (simp add: parse_csv_response_eq strip_def)
qed

theorem parse_never_raises_witness:
  "csv_search ''Sorry, no events were found.'' = None
   \<and> list_all (\<lambda>l. \<not> has_header (strip l))
        (split (CHR 0x0A) (strip ''Sorry, no events were found.''))
   \<and> csv_content ''Sorry, no events were found.'' = []
   \<and> parse_csv_response ''Sorry, no events were found.'' = []
   \<and> csv_content ('' '' @ ''```csv'' @ [CHR 0x0A, CHR 0x0A] @ ''```'') = []
   \<and> parse_csv_response ('' '' @ ''```csv'' @ [CHR 0x0A, CHR 0x0A] @ ''```'') = []
   \<and> length (split (CHR 0x0A) (strip (csv_content
        (''```csv'' @ [CHR 0x0A] @ ''event_id,start_time,end_time'' @ [CHR 0x0A] @ ''```''))))
       < 2
   \<and> parse_csv_response
        (''```csv'' @ [CHR 0x0A] @ ''event_id,start_time,end_time'' @ [CHR 0x0A] @ ''```'')
       = []"
proof -
  let ?a = "''Sorry, no events were found.''"
  let ?b = "'' '' @ ''```csv'' @ [CHR 0x0A, CHR 0x0A] @ ''```''"
  let ?c = "''```csv'' @ [CHR 0x0A] @ ''event_id,start_time,end_time'' @ [CHR 0x0A] @ ''```''"
  have a1: "csv_search ?a = None" by code_simp
  have a2: "list_all (\<lambda>l. \<not> has_header (strip l)) (split (CHR 0x0A) (strip ?a))"
    by code_simp
  then have a2': "\<forall>l\<in>set (split (CHR 0x0A) (strip ?a)). \<not> has_header (strip l)"
    unfolding list_all_iff .
  have b1: "csv_content ?b = []" by code_simp
  have c1: "length (split (CHR 0x0A) (strip (csv_content ?c))) < 2" by code_simp
  from parse_never_raises [of ?a] a1 a2'
  have ra: "csv_content ?a = [] \<and> parse_csv_response ?a = []" by blast
  from parse_never_raises [of ?b] b1 have rb: "parse_csv_response ?b = []" by blast
  from parse_never_raises [of ?c] c1 have rc: "parse_csv_response ?c = []" by blast
  from a1 a2 ra b1 rb c1 rc show ?thesis by (simp only:)
qed

section \<open>Properties of the cut loop\<close>

lemma plan_cut_has_job:
  "has_job seg \<Longrightarrow>
   plan_cut cfg inp out today seg = Inr (Some (job_of cfg inp out today seg))"
proof -
  assume h: "has_job seg"
  then obtain s d where s: "time_to_seconds (start_time seg) = Inr s"
    and d: "duration_of seg = Inr d" and p: "\<not> le_zero d"
    and fs: "seconds_fit s" and fd: "duration_fits d"
    by (auto simp: has_job_def positive_duration_def writable_def split: sum.splits)
  have a: "str_seconds s = Inr s" using fs by (cases s) simp_all
  have b: "str_duration d = Inr d" using fd by (cases d) simp_all
  show ?thesis
    using s d p a b
    by (auto simp: plan_cut_def job_of_def duration_of_def split: sum.splits)
qed

lemma str_seconds_cases:
  "str_seconds s = (if seconds_fit s then Inr s else Inl ValueError)"
  by (cases s) simp_all

lemma str_duration_cases:
  "str_duration d = (if duration_fits d then Inr d else Inl ValueError)"
  by (cases d) simp_all

lemma plan_cut_no_job:
  "\<not> has_job seg \<Longrightarrow>
   plan_cut cfg inp out today seg = Inr None \<or> (\<exists>e. plan_cut cfg inp out today seg = Inl e)"
  by (auto simp: has_job_def positive_duration_def writable_def duration_of_def plan_cut_def
      str_seconds_cases str_duration_cases split: sum.splits)

lemma plan_cut_le_zero:
  "duration_of seg = Inr d \<Longrightarrow> le_zero d \<Longrightarrow> plan_cut cfg inp out today seg = Inr None"
  by (auto simp: duration_of_def plan_cut_def split: sum.splits)

lemma planned_Cons:
  "planned cfg inp out today (seg # segs) =
     (if has_job seg then job_of cfg inp out today seg # planned cfg inp out today segs
      else planned cfg inp out today segs)"
  using plan_cut_no_job[of seg cfg inp out today]
  by (auto simp: planned_def plan_cut_has_job)

lemma planned_jobs:
  "planned cfg inp out today segs = map (job_of cfg inp out today) (filter has_job segs)"
  by (induction segs) (simp_all add: planned_Cons, simp add: planned_def)

lemma cut_loop_skip:
  "\<not> has_job seg \<Longrightarrow>
   cut_loop cfg run inp out today (seg # segs) files w = cut_loop cfg run inp out today segs files w"
  using plan_cut_no_job[of seg cfg inp out today] by auto

lemma cut_loop_run:
  "has_job seg \<Longrightarrow>
   cut_loop cfg run inp out today (seg # segs) files w =
     (case run w (job_of cfg inp out today seg) of
        (r, w') \<Rightarrow>
          cut_loop cfg run inp out today segs
            (if r = Inr 0 then files @ [cmd_output (job_of cfg inp out today seg)] else files) w')"
  by (auto simp: plan_cut_has_job split: prod.splits sum.splits)

lemma recording_apply: "recording f h cmd = (f h cmd, h @ [cmd])"
  by (simp add: recording_def)

lemma cut_loop_history:
  assumes "\<And>h cmd. snd (run h cmd) = h @ [cmd]"
  shows "snd (cut_loop cfg run inp out today segs files h)
     = h @ map (job_of cfg inp out today) (filter has_job segs)"
proof (induction segs arbitrary: files h)
  case Nil
  then show ?case by simp
next
  case (Cons seg segs)
  show ?case
  proof (cases "has_job seg")
    case True
    obtain r w' where rw: "run h (job_of cfg inp out today seg) = (r, w')"
      by (cases "run h (job_of cfg inp out today seg)")
    then have "w' = h @ [job_of cfg inp out today seg]"
      using assms[of h "job_of cfg inp out today seg"] by simp
    with True rw show ?thesis
      by (simp add: cut_loop_run Cons.IH del: cut_loop.simps)
  next
    case False
    then show ?thesis
      by (simp add: cut_loop_skip Cons.IH del: cut_loop.simps)
  qed
qed

lemma cut_loop_invocations:
  "snd (cut_loop cfg (recording f) inp out today segs files h)
     = h @ map (job_of cfg inp out today) (filter has_job segs)"
  by (rule cut_loop_history) (simp add: recording_apply)

lemma cut_loop_files:
  "cut_loop cfg run inp out today segs files w =
     (files @ map (cmd_output \<circ> fst)
        (filter succeeded
           (zip (planned cfg inp out today segs)
                (cut_outcomes run w (planned cfg inp out today segs)))),
      foldl (\<lambda>w cmd. snd (run w cmd)) w (planned cfg inp out today segs))"
proof (induction segs arbitrary: files w)
  case Nil
  then show ?case by (simp add: planned_def)
next
  case (Cons seg segs)
  show ?case
  proof (cases "has_job seg")
    case True
    then show ?thesis
      by (simp add: cut_loop_run planned_Cons Cons.IH succeeded_def split: prod.splits
          del: cut_loop.simps)
  next
    case False
    then show ?thesis
      by (simp add: cut_loop_skip planned_Cons Cons.IH del: cut_loop.simps)
  qed
qed

lemma length_cut_outcomes: "length (cut_outcomes run w cmds) = length cmds"
  by (induction cmds arbitrary: w) (auto split: prod.splits)

lemma job_of_output:
  "cmd_output (job_of cfg inp out today seg)
     = path_join cfg out (safe_event_id (event_id seg) @ ''_'' @ today @ ''.mp4'')"
  by (simp add: job_of_def output_filename_def)

lemma plan_cut_output:
  "plan_cut cfg inp out today seg = Inr (Some cmd) \<Longrightarrow>
   cmd_output cmd = path_join cfg out (safe_event_id (event_id seg) @ ''_'' @ today @ ''.mp4'')"
  by (auto simp: plan_cut_def output_filename_def split: sum.splits if_splits)

lemma decimal_length_pos: "0 < decimal_length n"
  by (subst decimal_length.simps) simp

lemma decimal_length_le: "0 < k \<Longrightarrow> decimal_length n \<le> k \<longleftrightarrow> \<bar>n\<bar> < 10 ^ k"
proof (induction k arbitrary: n)
  case 0
  then show ?case by simp
next
  case (Suc k)
  show ?case
  proof (cases "\<bar>n\<bar> < 10")
    case True
    have "(10::int) \<le> 10 ^ Suc k" by simp
    with True have "\<bar>n\<bar> < 10 ^ Suc k" by linarith
    with True show ?thesis by (simp add: decimal_length.simps[of n])
  next
    case False
    show ?thesis
    proof (cases "k = 0")
      case True
      with False show ?thesis
        using decimal_length_pos[of "\<bar>n\<bar> div 10"] by (simp add: decimal_length.simps[of n])
    next
      case k: False
      have "decimal_length n \<le> Suc k \<longleftrightarrow> decimal_length (\<bar>n\<bar> div 10) \<le> k"
        using False by (simp add: decimal_length.simps[of n])
      also have "\<dots> \<longleftrightarrow> \<bar>\<bar>n\<bar> div 10\<bar> < 10 ^ k" using Suc.IH k by simp
      also have "\<dots> \<longleftrightarrow> \<bar>n\<bar> div 10 < 10 ^ k" by simp
      also have "\<dots> \<longleftrightarrow> \<bar>n\<bar> < 10 ^ Suc k"
        by auto
      finally show ?thesis .
    qed
  qed
qed

lemma str_raises_iff:
  assumes "int N = int_max_str_digits"
  shows "str_raises n \<longleftrightarrow> 10 ^ N \<le> \<bar>n\<bar>"
proof -
  have p: "0 < N" using assms by (simp add: int_max_str_digits_def)
  have "str_raises n \<longleftrightarrow> \<not> decimal_length n \<le> N"
    unfolding str_raises_def assms[symmetric] by auto
  also have "\<dots> \<longleftrightarrow> 10 ^ N \<le> \<bar>n\<bar>"
    using decimal_length_le[OF p, of n] by auto
  finally show ?thesis .
qed

lemma nines_value:
  "foldl (\<lambda>a c. a * 10 + digit_val c) acc (replicate n (CHR ''9'')) = (acc + 1) * 10 ^ n - 1"
proof (induction n arbitrary: acc)
  case 0
  then show ?case by simp
next
  case (Suc n)
  have d: "digit_val (CHR ''9'') = 9" by (simp add: digit_val_def)
  have "foldl (\<lambda>a c. a * 10 + digit_val c) acc (replicate (Suc n) (CHR ''9''))
      = foldl (\<lambda>a c. a * 10 + digit_val c) (acc * 10 + 9) (replicate n (CHR ''9''))"
    by (simp add: d)
  also have "\<dots> = (acc * 10 + 9 + 1) * 10 ^ n - 1" by (rule Suc.IH)
  also have "\<dots> = (acc + 1) * 10 ^ Suc n - 1" by (simp add: algebra_simps)
  finally show ?case .
qed

lemma decimal_nines: "decimal (replicate n (CHR ''9'')) = 10 ^ n - 1"
  using nines_value[of 0 n] by (simp add: decimal_def)

lemma time_of_nines:
  assumes "int N = int_max_str_digits"
  shows "time_to_seconds (replicate N (CHR ''9'') @ '':00'') = Inr (IntSeconds ((10 ^ N - 1) * 60))"
proof -
  let ?n = "replicate N (CHR ''9'')"
  have p: "0 < N" using assms by (simp add: int_max_str_digits_def)
  have d9: "is_digit (CHR ''9'')" by (simp add: is_digit_def less_eq_char_def)
  have ne: "?n \<noteq> []" using p by simp
  have dg: "\<forall>c\<in>set ?n. is_digit c" using d9 by simp
  have ln: "int (length ?n) \<le> int_max_str_digits" using assms by simp
  have hd: "hd (?n @ '':00'') = CHR ''9''" using p by (cases N) simp_all
  have st: "strip (?n @ '':00'') = ?n @ '':00''"
    by (rule strip_ends) (simp_all add: hd isspace_def)
  have nc: "CHR '':'' \<notin> set ?n" by simp
  have sp: "split CHR '':'' (?n @ CHR '':'' # ''00'') = [?n, ''00'']"
    using split_append_sep[OF nc, of "''00''"] by (simp add: split_no_sep)
  have i1: "py_int ?n = Inr (10 ^ N - 1)"
    using py_int_digits[OF ne dg ln] by (simp add: decimal_nines)
  have i2: "py_int ''00'' = Inr 0" by code_simp
  have "time_to_seconds_try (?n @ '':00'') = Inr ((10 ^ N - 1) * 60 + 0)"
    unfolding time_to_seconds_try_def st using sp i1 i2 by simp
  then show ?thesis by (simp add: time_to_seconds_def)
qed

lemma nines_segment:
  assumes "int N = int_max_str_digits"
  shows "duration_of \<lparr>event_id = eid, start_time = ''00:00'',
       end_time = replicate N (CHR ''9'') @ '':00''\<rparr>
     = Inr (PyInt ((10 ^ N - 1) * 60))"
  and "\<not> le_zero (PyInt ((10 ^ N - 1) * 60))"
  and "plan_cut cfg inp out today \<lparr>event_id = eid, start_time = ''00:00'',
       end_time = replicate N (CHR ''9'') @ '':00''\<rparr>
     = Inl ValueError"
  and "cut_loop cfg run inp out today [\<lparr>event_id = eid, start_time = ''00:00'',
       end_time = replicate N (CHR ''9'') @ '':00''\<rparr>] files w
     = (files, w)"
proof -
  let ?seg = "\<lparr>event_id = eid, start_time = ''00:00'',
       end_time = replicate N (CHR ''9'') @ '':00''\<rparr>"
  let ?X = "((10::int) ^ N - 1) * 60"
  have p: "0 < N" using assms by (simp add: int_max_str_digits_def)
  have t0: "time_to_seconds ''00:00'' = Inr (IntSeconds 0)" by code_simp
  note t1 = time_of_nines[OF assms]
  have "(10::int) ^ 1 \<le> 10 ^ N"
    by (rule power_increasing) (use p in simp_all)
  then have ten: "(10::int) \<le> 10 ^ N" by simp
  show dur: "duration_of ?seg = Inr (PyInt ?X)"
    by (simp add: duration_of_def t0 t1)
  have x1: "0 < ?X" using ten by simp
  have "(10::int) ^ N \<le> ?X" using ten by simp
  then have x2: "(10::int) ^ N \<le> \<bar>?X\<bar>" by linarith
  show pos: "\<not> le_zero (PyInt ?X)" using x1 by (simp only: le_zero.simps not_le)
  have sr: "str_raises ?X" using x2 by (simp only: str_raises_iff[OF assms])
  have "\<not> (10::int) ^ N \<le> \<bar>0\<bar>" using ten by linarith
  then have s0: "\<not> str_raises 0" unfolding str_raises_iff[OF assms] .
  have sub: "sub_seconds (IntSeconds ?X) (IntSeconds 0) = Inr (PyInt ?X)" by simp
  show plan: "plan_cut cfg inp out today ?seg = Inl ValueError"
    unfolding plan_cut_def using t0 t1 sub pos sr s0 by simp
  show "cut_loop cfg run inp out today [?seg] files w = (files, w)"
    unfolding cut_loop.simps plan by simp
qed

text \<open>
  Claim C6, as the code has it. The loop takes the segments in their order and hands the
  cutter exactly the commands of the segments that have a job, one each, in the order of
  the segments: with a cutter that keeps the list of the commands it is given, whatever
  its outcomes, that list is extended by the jobs of those segments. A segment has a job
  exactly when its duration is computed and is not \<^verbatim>\<open><= 0\<close> and neither its start nor
  its duration is an integer of more than 4300 digits, which \<^verbatim>\<open>str\<close> refuses to write.
  Such a segment yields its job; any other yields none, in particular one whose duration
  is \<^verbatim>\<open><= 0\<close>; the loop then goes on with the segments that follow.
\<close>

theorem cut_planning:
  "snd (cut_loop cfg (recording f) inp out today segs files h)
      = h @ map (job_of cfg inp out today) (filter has_job segs)
   \<and> (has_job seg
        \<longrightarrow> plan_cut cfg inp out today seg = Inr (Some (job_of cfg inp out today seg)))
   \<and> (\<not> has_job seg \<longrightarrow> plan_cut cfg inp out today seg \<noteq> Inr (Some cmd))
   \<and> (duration_of seg = Inr d \<and> le_zero d \<longrightarrow> plan_cut cfg inp out today seg = Inr None)
   \<and> (has_job seg \<longleftrightarrow>
        (\<exists>s d. time_to_seconds (start_time seg) = Inr s \<and> duration_of seg = Inr d
           \<and> \<not> le_zero d \<and> seconds_fit s \<and> duration_fits d))"
proof -
  have a: "\<not> has_job seg \<longrightarrow> plan_cut cfg inp out today seg \<noteq> Inr (Some cmd)"
    using plan_cut_no_job[of seg cfg inp out today] by auto
  have b: "has_job seg \<longleftrightarrow>
        (\<exists>s d. time_to_seconds (start_time seg) = Inr s \<and> duration_of seg = Inr d
           \<and> \<not> le_zero d \<and> seconds_fit s \<and> duration_fits d)"
    by (auto simp: has_job_def positive_duration_def writable_def split: sum.splits)
  show ?thesis
    using a b by (simp add: cut_loop_invocations plan_cut_has_job plan_cut_le_zero)
qed

theorem cut_planning_witness:
  "has_job \<lparr>event_id = ''ev1'', start_time = ''00:00'', end_time = ''01:30''\<rparr>
   \<and> duration_of \<lparr>event_id = ''ev2'', start_time = ''01:30'', end_time = ''01:10''\<rparr>
       = Inr (PyInt (- 20))
   \<and> le_zero (PyInt (- 20))
   \<and> plan_cut \<lparr>path_str = \<lambda>p. p, path_join = \<lambda>d n. d @ ''/'' @ n, default_dir = ''out'',
          ffmpeg_path = ''ffmpeg''\<rparr> ''in.mp4'' ''out'' ''20240131''
        \<lparr>event_id = ''ev2'', start_time = ''01:30'', end_time = ''01:10''\<rparr> = Inr None
   \<and> snd (cut_loop \<lparr>path_str = \<lambda>p. p, path_join = \<lambda>d n. d @ ''/'' @ n, default_dir = ''out'',
          ffmpeg_path = ''ffmpeg''\<rparr> (recording (\<lambda>h c. Inr 0)) ''in.mp4'' ''out'' ''20240131''
        [\<lparr>event_id = ''ev1'', start_time = ''00:00'', end_time = ''01:30''\<rparr>,
         \<lparr>event_id = ''ev2'', start_time = ''01:30'', end_time = ''01:10''\<rparr>,
         \<lparr>event_id = ''ev3'', start_time = ''02:00'', end_time = ''03:45''\<rparr>] [] [])
     = [\<lparr>cmd_program = ''ffmpeg'', cmd_input = ''in.mp4'', cmd_ss = IntSeconds 0,
         cmd_t = PyInt 90, cmd_output = ''out/ev1_20240131.mp4''\<rparr>,
        \<lparr>cmd_program = ''ffmpeg'', cmd_input = ''in.mp4'', cmd_ss = IntSeconds 120,
         cmd_t = PyInt 105, cmd_output = ''out/ev3_20240131.mp4''\<rparr>]"
proof -
  let ?cfg = "\<lparr>path_str = \<lambda>p. p, path_join = \<lambda>d n. d @ ''/'' @ n, default_dir = ''out'',
          ffmpeg_path = ''ffmpeg''\<rparr>"
  let ?s1 = "\<lparr>event_id = ''ev1'', start_time = ''00:00'', end_time = ''01:30''\<rparr>"
  let ?s2 = "\<lparr>event_id = ''ev2'', start_time = ''01:30'', end_time = ''01:10''\<rparr>"
  let ?s3 = "\<lparr>event_id = ''ev3'', start_time = ''02:00'', end_time = ''03:45''\<rparr>"
  have p1: "has_job ?s1" by code_simp
  have d2: "duration_of ?s2 = Inr (PyInt (- 20))" by code_simp
  have l2: "le_zero (PyInt (- 20))" by simp
  have v: "map (job_of ?cfg ''in.mp4'' ''out'' ''20240131'') (filter has_job [?s1, ?s2, ?s3])
     = [\<lparr>cmd_program = ''ffmpeg'', cmd_input = ''in.mp4'', cmd_ss = IntSeconds 0,
         cmd_t = PyInt 90, cmd_output = ''out/ev1_20240131.mp4''\<rparr>,
        \<lparr>cmd_program = ''ffmpeg'', cmd_input = ''in.mp4'', cmd_ss = IntSeconds 120,
         cmd_t = PyInt 105, cmd_output = ''out/ev3_20240131.mp4''\<rparr>]"
    by code_simp
  note t = cut_planning [of ?cfg "\<lambda>h c. Inr 0" "''in.mp4''" "''out''" "''20240131''"
      "[?s1, ?s2, ?s3]" "[]" "[]" ?s2 _ "PyInt (- 20)"]
  from t d2 l2 have r2: "plan_cut ?cfg ''in.mp4'' ''out'' ''20240131'' ?s2 = Inr None" by blast
  from t v have r: "snd (cut_loop ?cfg (recording (\<lambda>h c. Inr 0)) ''in.mp4'' ''out'' ''20240131''
        [?s1, ?s2, ?s3] [] [])
     = [\<lparr>cmd_program = ''ffmpeg'', cmd_input = ''in.mp4'', cmd_ss = IntSeconds 0,
         cmd_t = PyInt 90, cmd_output = ''out/ev1_20240131.mp4''\<rparr>,
        \<lparr>cmd_program = ''ffmpeg'', cmd_input = ''in.mp4'', cmd_ss = IntSeconds 120,
         cmd_t = PyInt 105, cmd_output = ''out/ev3_20240131.mp4''\<rparr>]"
    by (simp only: append_Nil)
  from p1 d2 l2 r2 r show ?thesis by (simp only:)
qed

text \<open>
  Claim C6 as stated says that every segment with a positive duration produces a job.
  For the start "00:00" and the end made of 4300 nines, a colon and "00", the duration
  is computed and positive, but it has 4302 digits: \<^verbatim>\<open>str(duration)\<close> raises, the
  iteration is left through its \<^verbatim>\<open>except\<close> clause, and the cutter is not called.
\<close>

theorem positive_duration_without_job:
  "duration_of \<lparr>event_id = ''ev1'', start_time = ''00:00'',
       end_time = replicate 4300 (CHR ''9'') @ '':00''\<rparr>
     = Inr (PyInt ((10 ^ 4300 - 1) * 60))
   \<and> \<not> le_zero (PyInt ((10 ^ 4300 - 1) * 60))
   \<and> plan_cut \<lparr>path_str = id, path_join = (@), default_dir = ''out'',
          ffmpeg_path = ''ffmpeg''\<rparr> ''in.mp4'' ''out'' ''20240131''
        \<lparr>event_id = ''ev1'', start_time = ''00:00'',
         end_time = replicate 4300 (CHR ''9'') @ '':00''\<rparr>
     = Inl ValueError
   \<and> cut_loop \<lparr>path_str = id, path_join = (@), default_dir = ''out'',
          ffmpeg_path = ''ffmpeg''\<rparr> (recording (\<lambda>h c. Inr 0)) ''in.mp4'' ''out'' ''20240131''
        [\<lparr>event_id = ''ev1'', start_time = ''00:00'',
          end_time = replicate 4300 (CHR ''9'') @ '':00''\<rparr>] [] []
     = ([], [])"
proof -
  have n: "int 4300 = int_max_str_digits" by (simp add: int_max_str_digits_def)
  show ?thesis
    by (intro conjI) (rule nines_segment[OF n])+
qed

text \<open>
  Claim C4. For every list of segments and every cutter, the list returned by
  \<^verbatim>\<open>_split_video_with_ffmpeg\<close> holds exactly the output paths of the jobs whose run
  returned the code 0, in the order of the jobs; the jobs are the commands that the
  iterations build. Every job is run, each in the world the run before it left, whatever
  the outcomes: there is one outcome for each job. A run that raises and a run that
  returns another code are both not a success, and the job after it is run all the same.
\<close>

theorem produced_files_are_successful_cuts:
  "split_video_with_ffmpeg cfg col inp segs out w =
     (map (cmd_output \<circ> fst)
        (filter succeeded
           (zip (planned cfg inp out (now_date col w) segs)
                (cut_outcomes (run_ffmpeg col) w (planned cfg inp out (now_date col w) segs)))),
      foldl (\<lambda>w cmd. snd (run_ffmpeg col w cmd)) w (planned cfg inp out (now_date col w) segs))
   \<and> length (cut_outcomes (run_ffmpeg col) w (planned cfg inp out (now_date col w) segs))
       = length (planned cfg inp out (now_date col w) segs)
   \<and> \<not> succeeded (cmd, Inl e)
   \<and> (succeeded (cmd, Inr code) \<longleftrightarrow> code = 0)"
  by (simp add: split_video_with_ffmpeg_def cut_loop_files length_cut_outcomes succeeded_def)

theorem produced_files_are_successful_cuts_witness:
  "split_video_with_ffmpeg
     \<lparr>path_str = \<lambda>p. p, path_join = \<lambda>d n. d @ ''/'' @ n, default_dir = ''out'',
      ffmpeg_path = ''ffmpeg''\<rparr>
     \<lparr>exists = \<lambda>w p. Inr True, mkdir = \<lambda>w d. (None, w), get_prompt = \<lambda>w. (Inr None, w),
      analyze_with_custom_prompt = \<lambda>w v p. (Inr [], w), now_date = \<lambda>w. ''20240131'',
      run_ffmpeg = \<lambda>w cmd.
        (if w = 0 then Inr 0
         else if w = Suc 0 then Inl (OtherError (Text ''no such program''))
         else if w = Suc (Suc 0) then Inr 1
         else Inr 0, Suc w),
      now_timestamp = \<lambda>w. ''20240131_120000'', write_csv = \<lambda>w p s. (None, w)\<rparr>
     ''in.mp4''
     [\<lparr>event_id = ''a'', start_time = ''00:00'', end_time = ''00:10''\<rparr>,
      \<lparr>event_id = ''b'', start_time = ''00:10'', end_time = ''00:20''\<rparr>,
      \<lparr>event_id = ''c'', start_time = ''00:20'', end_time = ''00:30''\<rparr>,
      \<lparr>event_id = ''d'', start_time = ''00:30'', end_time = ''00:40''\<rparr>]
     ''out'' (0::nat)
   = ([''out/a_20240131.mp4'', ''out/d_20240131.mp4''], 4)"
proof -
  let ?cfg = "\<lparr>path_str = \<lambda>p. p, path_join = \<lambda>d n. d @ ''/'' @ n, default_dir = ''out'',
      ffmpeg_path = ''ffmpeg''\<rparr>"
  let ?run = "\<lambda>(w::nat) (cmd::ffmpeg_cmd).
        (if w = 0 then Inr 0
         else if w = Suc 0 then Inl (OtherError (Text ''no such program''))
         else if w = Suc (Suc 0) then Inr 1
         else Inr (0::int), Suc w)"
  let ?col = "\<lparr>exists = \<lambda>(w::nat) p. Inr True, mkdir = \<lambda>w d. (None, w), get_prompt = \<lambda>w. (Inr None, w),
      analyze_with_custom_prompt = \<lambda>w v p. (Inr [], w), now_date = \<lambda>w. ''20240131'',
      run_ffmpeg = ?run,
      now_timestamp = \<lambda>w. ''20240131_120000'', write_csv = \<lambda>w p s. (None, w)\<rparr>"
  let ?segs = "[\<lparr>event_id = ''a'', start_time = ''00:00'', end_time = ''00:10''\<rparr>,
      \<lparr>event_id = ''b'', start_time = ''00:10'', end_time = ''00:20''\<rparr>,
      \<lparr>event_id = ''c'', start_time = ''00:20'', end_time = ''00:30''\<rparr>,
      \<lparr>event_id = ''d'', start_time = ''00:30'', end_time = ''00:40''\<rparr>]"
  have v: "(map (cmd_output \<circ> fst)
        (filter succeeded
           (zip (planned ?cfg ''in.mp4'' ''out'' (now_date ?col 0) ?segs)
                (cut_outcomes (run_ffmpeg ?col) 0
                   (planned ?cfg ''in.mp4'' ''out'' (now_date ?col 0) ?segs)))),
      foldl (\<lambda>w cmd. snd (run_ffmpeg ?col w cmd)) 0
        (planned ?cfg ''in.mp4'' ''out'' (now_date ?col 0) ?segs))
    = ([''out/a_20240131.mp4'', ''out/d_20240131.mp4''], 4)"
    by code_simp
  from produced_files_are_successful_cuts [of ?cfg ?col "''in.mp4''" ?segs "''out''" 0]
  have "split_video_with_ffmpeg ?cfg ?col ''in.mp4'' ?segs ''out'' 0 =
     (map (cmd_output \<circ> fst)
        (filter succeeded
           (zip (planned ?cfg ''in.mp4'' ''out'' (now_date ?col 0) ?segs)
                (cut_outcomes (run_ffmpeg ?col) 0
                   (planned ?cfg ''in.mp4'' ''out'' (now_date ?col 0) ?segs)))),
      foldl (\<lambda>w cmd. snd (run_ffmpeg ?col w cmd)) 0
        (planned ?cfg ''in.mp4'' ''out'' (now_date ?col 0) ?segs))"
    by (rule conjunct1)
  then show ?thesis unfolding v .
qed

text \<open>
  Claim C7. The output path of every job is the output directory joined with the file
  name: the sanitized event id, an underscore, the date and the extension \<^verbatim>\<open>.mp4\<close>. The
  date is the one read at the start of the run, for every job, also when the clock
  changes while the cuts are made. The sanitized id has the length of the event id;
  a character of the class (a word character, hyphen, underscore, dot) is kept and any
  other one is replaced by an underscore. The id "A/B C" becomes "A_B_C".
\<close>

theorem output_file_names:
  "(run_ffmpeg col = recording f \<longrightarrow>
      map cmd_output (snd (split_video_with_ffmpeg cfg col inp segs out []))
        = map (\<lambda>seg. path_join cfg out
                 (safe_event_id (event_id seg) @ ''_'' @ now_date col [] @ ''.mp4''))
            (filter has_job segs))
   \<and> (plan_cut cfg inp out today seg = Inr (Some cmd) \<longrightarrow>
        cmd_output cmd
          = path_join cfg out (safe_event_id (event_id seg) @ ''_'' @ today @ ''.mp4''))
   \<and> length (safe_event_id eid) = length eid
   \<and> (\<forall>i < length eid.
        safe_event_id eid ! i = (if in_safe_class (eid ! i) then eid ! i else CHR ''_''))
   \<and> (in_safe_class c \<longleftrightarrow> is_word_char c \<or> c = CHR ''-'' \<or> c = CHR ''_'' \<or> c = CHR ''.'')
   \<and> safe_event_id ''A/B C'' = ''A_B_C''"
proof -
  have a: "run_ffmpeg col = recording f \<longrightarrow>
      map cmd_output (snd (split_video_with_ffmpeg cfg col inp segs out []))
        = map (\<lambda>seg. path_join cfg out
                 (safe_event_id (event_id seg) @ ''_'' @ now_date col [] @ ''.mp4''))
            (filter has_job segs)"
    by (simp add: split_video_with_ffmpeg_def cut_loop_invocations job_of_output comp_def)
  have b: "plan_cut cfg inp out today seg = Inr (Some cmd) \<longrightarrow>
        cmd_output cmd
          = path_join cfg out (safe_event_id (event_id seg) @ ''_'' @ today @ ''.mp4'')"
    using plan_cut_output by blast
  have c: "length (safe_event_id eid) = length eid"
    by (simp add: safe_event_id_def)
  have d: "\<forall>i < length eid.
        safe_event_id eid ! i = (if in_safe_class (eid ! i) then eid ! i else CHR ''_'')"
    by (simp add: safe_event_id_def)
  have e: "in_safe_class c \<longleftrightarrow> is_word_char c \<or> c = CHR ''-'' \<or> c = CHR ''_'' \<or> c = CHR ''.''"
    by (simp add: in_safe_class_def)
  have g: "safe_event_id ''A/B C'' = ''A_B_C''"
    by code_simp
  from a b c d e g show ?thesis by (simp only: simp_thms)
qed

theorem output_file_names_witness:
  "map cmd_output (snd (split_video_with_ffmpeg
     \<lparr>path_str = \<lambda>p. p, path_join = \<lambda>d n. d @ ''/'' @ n, default_dir = ''out'',
      ffmpeg_path = ''ffmpeg''\<rparr>
     \<lparr>exists = \<lambda>w p. Inr True, mkdir = \<lambda>w d. (None, w), get_prompt = \<lambda>w. (Inr None, w),
      analyze_with_custom_prompt = \<lambda>w v p. (Inr [], w),
      now_date = \<lambda>w. (case w of [] \<Rightarrow> ''20240131'' | c # cs \<Rightarrow> ''20240201''),
      run_ffmpeg = recording (\<lambda>h c. Inr 0),
      now_timestamp = \<lambda>w. ''20240131_120000'', write_csv = \<lambda>w p s. (None, w)\<rparr>
     ''in.mp4''
     [\<lparr>event_id = ''A/B C'', start_time = ''00:00'', end_time = ''00:10''\<rparr>,
      \<lparr>event_id = ''skipped'', start_time = ''00:20'', end_time = ''00:20''\<rparr>,
      \<lparr>event_id = ''ev-3.x'', start_time = ''00:20'', end_time = ''00:30''\<rparr>]
     ''out'' []))
   = [''out/A_B_C_20240131.mp4'', ''out/ev-3.x_20240131.mp4'']
   \<and> plan_cut \<lparr>path_str = \<lambda>p. p, path_join = \<lambda>d n. d @ ''/'' @ n, default_dir = ''out'',
        ffmpeg_path = ''ffmpeg''\<rparr> ''in.mp4'' ''out'' ''20240131''
        \<lparr>event_id = ''A/B C'', start_time = ''00:00'', end_time = ''00:10''\<rparr>
      = Inr (Some \<lparr>cmd_program = ''ffmpeg'', cmd_input = ''in.mp4'', cmd_ss = IntSeconds 0,
          cmd_t = PyInt 10, cmd_output = ''out/A_B_C_20240131.mp4''\<rparr>)
   \<and> safe_event_id ''A/B C'' ! 1 = CHR ''_''
   \<and> safe_event_id ''A/B C'' ! 2 = CHR ''B''"
proof -
  let ?cfg = "\<lparr>path_str = \<lambda>p. p, path_join = \<lambda>d n. d @ ''/'' @ n, default_dir = ''out'',
      ffmpeg_path = ''ffmpeg''\<rparr>"
  let ?col = "\<lparr>exists = \<lambda>(w::ffmpeg_cmd list) p. Inr True, mkdir = \<lambda>w d. (None, w),
      get_prompt = \<lambda>w. (Inr None, w),
      analyze_with_custom_prompt = \<lambda>w v p. (Inr [], w),
      now_date = \<lambda>w. (case w of [] \<Rightarrow> ''20240131'' | c # cs \<Rightarrow> ''20240201''),
      run_ffmpeg = recording (\<lambda>h c. Inr 0),
      now_timestamp = \<lambda>w. ''20240131_120000'', write_csv = \<lambda>w p s. (None, w)\<rparr>"
  let ?s1 = "\<lparr>event_id = ''A/B C'', start_time = ''00:00'', end_time = ''00:10''\<rparr>"
  let ?segs = "[?s1,
      \<lparr>event_id = ''skipped'', start_time = ''00:20'', end_time = ''00:20''\<rparr>,
      \<lparr>event_id = ''ev-3.x'', start_time = ''00:20'', end_time = ''00:30''\<rparr>]"
  let ?job = "\<lparr>cmd_program = ''ffmpeg'', cmd_input = ''in.mp4'', cmd_ss = IntSeconds 0,
          cmd_t = PyInt 10, cmd_output = ''out/A_B_C_20240131.mp4''\<rparr>"
  note t = output_file_names [where col = ?col and f = "\<lambda>h c. Inr 0" and cfg = ?cfg
      and inp = "''in.mp4''" and segs = ?segs and out = "''out''" and today = "''20240131''"
      and seg = ?s1 and cmd = ?job and eid = "''A/B C''"]
  have r: "run_ffmpeg ?col = recording (\<lambda>h c. Inr 0)" by simp
  have v: "map (\<lambda>seg. path_join ?cfg ''out''
                 (safe_event_id (event_id seg) @ ''_'' @ now_date ?col [] @ ''.mp4''))
            (filter has_job ?segs)
     = [''out/A_B_C_20240131.mp4'', ''out/ev-3.x_20240131.mp4'']"
    by code_simp
  have p: "plan_cut ?cfg ''in.mp4'' ''out'' ''20240131'' ?s1 = Inr (Some ?job)"
    by code_simp
  have s: "safe_event_id ''A/B C'' = ''A_B_C''"
    using t by blast
  from t r have a: "map cmd_output (snd (split_video_with_ffmpeg ?cfg ?col ''in.mp4'' ?segs ''out'' []))
     = [''out/A_B_C_20240131.mp4'', ''out/ev-3.x_20240131.mp4'']"
    unfolding v by blast
  have i1: "safe_event_id ''A/B C'' ! 1 = CHR ''_''" unfolding s by simp
  have i2: "safe_event_id ''A/B C'' ! 2 = CHR ''B''" unfolding s by simp
  from a p i1 i2 show ?thesis by (simp only: simp_thms)
qed

section \<open>Properties of the pipeline\<close>

text \<open>
  Claim C8. When the input path does not exist, \<^verbatim>\<open>split_video\<close> raises the
  \<open>VideoSplitterError\<close> that wraps the message for a missing input, and the world is
  the one it started in, whatever the collaborators are: no directory has been made and
  the analyzer has not been called.
\<close>

theorem missing_input_is_fatal:
  "exists col w input_video_path = Inr False \<Longrightarrow>
   split_video cfg col input_video_path output_dir w
     = (Inl (VideoSplitterError (SplitFailed (InputNotFound input_video_path))), w)"
  by (simp add: split_video_def split_video_try_def)

theorem missing_input_is_fatal_witness:
  "exists
     \<lparr>exists = \<lambda>w p. Inr (p = ''here.mp4''),
      mkdir = \<lambda>w d. (None, w @ [''mkdir '' @ d]),
      get_prompt = \<lambda>w. (Inr (Some ''prompt''), w @ [''get_prompt'']),
      analyze_with_custom_prompt = \<lambda>w v p. (Inr [], w @ [''analyze '' @ v]),
      now_date = \<lambda>w. ''20240131'',
      run_ffmpeg = \<lambda>w cmd. (Inr 0, w @ [''ffmpeg '' @ cmd_output cmd]),
      now_timestamp = \<lambda>w. ''20240131_120000'',
      write_csv = \<lambda>w p s. (None, w @ [''write '' @ p])\<rparr> [] ''missing.mp4'' = Inr False
   \<and> split_video
     \<lparr>path_str = \<lambda>p. p, path_join = \<lambda>d n. d @ ''/'' @ n, default_dir = ''out'',
      ffmpeg_path = ''ffmpeg''\<rparr>
     \<lparr>exists = \<lambda>w p. Inr (p = ''here.mp4''),
      mkdir = \<lambda>w d. (None, w @ [''mkdir '' @ d]),
      get_prompt = \<lambda>w. (Inr (Some ''prompt''), w @ [''get_prompt'']),
      analyze_with_custom_prompt = \<lambda>w v p. (Inr [], w @ [''analyze '' @ v]),
      now_date = \<lambda>w. ''20240131'',
      run_ffmpeg = \<lambda>w cmd. (Inr 0, w @ [''ffmpeg '' @ cmd_output cmd]),
      now_timestamp = \<lambda>w. ''20240131_120000'',
      write_csv = \<lambda>w p s. (None, w @ [''write '' @ p])\<rparr>
     ''missing.mp4'' None []
   = (Inl (VideoSplitterError (SplitFailed (InputNotFound ''missing.mp4''))), [])"
proof -
  let ?col = "\<lparr>exists = \<lambda>(w::string list) p. Inr (p = ''here.mp4''),
      mkdir = \<lambda>w d. (None, w @ [''mkdir '' @ d]),
      get_prompt = \<lambda>w. (Inr (Some ''prompt''), w @ [''get_prompt'']),
      analyze_with_custom_prompt = \<lambda>w v p. (Inr [], w @ [''analyze '' @ v]),
      now_date = \<lambda>w. ''20240131'',
      run_ffmpeg = \<lambda>w cmd. (Inr 0, w @ [''ffmpeg '' @ cmd_output cmd]),
      now_timestamp = \<lambda>w. ''20240131_120000'',
      write_csv = \<lambda>w p s. (None, w @ [''write '' @ p])\<rparr>"
  have e: "exists ?col [] ''missing.mp4'' = Inr False" by simp
  from e missing_input_is_fatal [OF e] show ?thesis by (simp only: simp_thms)
qed

text \<open>
  Claim C10. Take a run that reaches the third step: the input exists, the directory is
  made, the analysis gives a non-empty list of segments, and the cuts give the list
  \<open>files\<close>. Then \<^verbatim>\<open>split_video\<close> returns a result whatever the writing of the CSV file
  does. When the writing raises, the field \<open>csv_file\<close> is the empty string; when it does
  not, it is the path of the file. The other fields are the same in both cases.
\<close>

theorem csv_failure_is_swallowed:
  assumes "exists col w input_video_path = Inr True"
    and "out = (case output_dir of None \<Rightarrow> default_dir cfg | Some d \<Rightarrow> d)"
    and "mkdir col w out = (None, w1)"
    and "analyze_video col (path_str cfg input_video_path) w1 = (Inr event_segments, w2)"
    and "event_segments \<noteq> []"
    and "split_video_with_ffmpeg cfg col (path_str cfg input_video_path) event_segments
           (path_str cfg out) w2 = (files, w3)"
    and "csv_path = path_join cfg (path_str cfg out)
           (''video_segments_'' @ now_timestamp col w3 @ ''.csv'')"
    and "write_csv col w3 csv_path event_segments = (written, w4)"
  shows "split_video cfg col input_video_path output_dir w
     = (Inr \<lparr>input_file = path_str cfg input_video_path,
             output_directory = path_str cfg out,
             segments_count = length event_segments,
             split_files = files,
             csv_file = (case written of Some e \<Rightarrow> [] | None \<Rightarrow> csv_path),
             segments = event_segments\<rparr>, w4)"
  using assms
  by (simp add: split_video_def split_video_try_def save_segments_to_csv_def Let_def
      split: option.splits)

theorem csv_failure_is_swallowed_witness:
  "split_video
     \<lparr>path_str = \<lambda>p. p, path_join = \<lambda>d n. d @ ''/'' @ n, default_dir = ''out'',
      ffmpeg_path = ''ffmpeg''\<rparr>
     \<lparr>exists = \<lambda>w p. Inr True,
      mkdir = \<lambda>w d. (None, w @ [''mkdir'']),
      get_prompt = \<lambda>w. (Inr (Some ''prompt''), w),
      analyze_with_custom_prompt = \<lambda>w v p.
        (Inr (''```csv'' @ [CHR 0x0A] @ ''event_id,start_time,end_time'' @ [CHR 0x0A]
              @ ''ev1,00:00,00:10'' @ [CHR 0x0A] @ ''```''), w @ [''analyze'']),
      now_date = \<lambda>w. ''20240131'',
      run_ffmpeg = \<lambda>w cmd. (Inr 0, w @ [''ffmpeg'']),
      now_timestamp = \<lambda>w. ''20240131_120000'',
      write_csv = \<lambda>w p s. (Some (OtherError (Text ''disk full'')), w @ [''open''])\<rparr>
     ''in.mp4'' None []
   = (Inr \<lparr>input_file = ''in.mp4'', output_directory = ''out'', segments_count = 1,
           split_files = [''out/ev1_20240131.mp4''], csv_file = [],
           segments = [\<lparr>event_id = ''ev1'', start_time = ''00:00'', end_time = ''00:10''\<rparr>]\<rparr>,
      [''mkdir'', ''analyze'', ''ffmpeg'', ''open''])"
proof -
  let ?cfg = "\<lparr>path_str = \<lambda>p. p, path_join = \<lambda>d n. d @ ''/'' @ n, default_dir = ''out'',
      ffmpeg_path = ''ffmpeg''\<rparr>"
  let ?col = "\<lparr>exists = \<lambda>(w::string list) p. Inr True,
      mkdir = \<lambda>w d. (None, w @ [''mkdir'']),
      get_prompt = \<lambda>w. (Inr (Some ''prompt''), w),
      analyze_with_custom_prompt = \<lambda>w v p.
        (Inr (''```csv'' @ [CHR 0x0A] @ ''event_id,start_time,end_time'' @ [CHR 0x0A]
              @ ''ev1,00:00,00:10'' @ [CHR 0x0A] @ ''```''), w @ [''analyze'']),
      now_date = \<lambda>w. ''20240131'',
      run_ffmpeg = \<lambda>w cmd. (Inr 0, w @ [''ffmpeg'']),
      now_timestamp = \<lambda>w. ''20240131_120000'',
      write_csv = \<lambda>w p s. (Some (OtherError (Text ''disk full'')), w @ [''open''])\<rparr>"
  let ?segs = "[\<lparr>event_id = ''ev1'', start_time = ''00:00'', end_time = ''00:10''\<rparr>]"
  have h1: "exists ?col [] ''in.mp4'' = Inr True" by simp
  have h2: "''out'' = (case None of None \<Rightarrow> default_dir ?cfg | Some d \<Rightarrow> d)" by simp
  have h3: "mkdir ?col [] ''out'' = (None, [''mkdir''])" by simp
  have h4: "analyze_video ?col (path_str ?cfg ''in.mp4'') [''mkdir'']
      = (Inr ?segs, [''mkdir'', ''analyze''])"
    by code_simp
  have h5: "?segs \<noteq> []" by simp
  have h6: "split_video_with_ffmpeg ?cfg ?col (path_str ?cfg ''in.mp4'') ?segs
      (path_str ?cfg ''out'') [''mkdir'', ''analyze'']
      = ([''out/ev1_20240131.mp4''], [''mkdir'', ''analyze'', ''ffmpeg''])"
    by code_simp
  have h7: "''out/video_segments_20240131_120000.csv''
      = path_join ?cfg (path_str ?cfg ''out'')
          (''video_segments_'' @ now_timestamp ?col [''mkdir'', ''analyze'', ''ffmpeg''] @ ''.csv'')"
    by simp
  have h8: "write_csv ?col [''mkdir'', ''analyze'', ''ffmpeg'']
        ''out/video_segments_20240131_120000.csv'' ?segs
      = (Some (OtherError (Text ''disk full'')), [''mkdir'', ''analyze'', ''ffmpeg'', ''open''])"
    by simp
  from csv_failure_is_swallowed [OF h1 h2 h3 h4 h5 h6 h7 h8]
  show ?thesis by simp
qed

end
